theory Spec2Isabelle
  imports Main "HOL-Library.Word"
begin

section \<open>JavaScript strings\<close>

text \<open>
  A JavaScript string is a sequence of 16-bit code units; \<open>length\<close> counts code units.
  \<open>lit\<close> embeds an ASCII literal.
\<close>

type_synonym jsstring = "16 word list"

definition lit :: "string \<Rightarrow> jsstring" where
  "lit s = map of_char s"

text \<open>
  The character classes of the regular expression in \<open>tokenizeWithOffsets\<close>:
  \<open>\s\<close> is ECMAScript's WhiteSpace and LineTerminator (the same set \<open>String.prototype.trim\<close>
  strips), \<open>\w\<close> is \<open>[A-Za-z0-9_]\<close>. Both contain code points of the basic plane only.
\<close>

definition is_space :: "16 word \<Rightarrow> bool" where
  "is_space c \<longleftrightarrow>
     c \<in> {0x9, 0xA, 0xB, 0xC, 0xD, 0x20, 0xA0, 0x1680, 0x2028, 0x2029, 0x202F, 0x205F,
          0x3000, 0xFEFF}
     \<or> (0x2000 \<le> c \<and> c \<le> 0x200A)"

definition is_word :: "16 word \<Rightarrow> bool" where
  "is_word c \<longleftrightarrow>
     (0x30 \<le> c \<and> c \<le> 0x39) \<or> (0x41 \<le> c \<and> c \<le> 0x5A) \<or> c = 0x5F
     \<or> (0x61 \<le> c \<and> c \<le> 0x7A)"

definition is_lead :: "16 word \<Rightarrow> bool" where
  "is_lead c \<longleftrightarrow> 0xD800 \<le> c \<and> c \<le> 0xDBFF"

definition is_trail :: "16 word \<Rightarrow> bool" where
  "is_trail c \<longleftrightarrow> 0xDC00 \<le> c \<and> c \<le> 0xDFFF"

text \<open>
  With the \<open>u\<close> flag the regular expression reads code points: a lead surrogate followed
  by a trail surrogate is one character of two code units, anything else is one code unit.
\<close>

fun code_point_len :: "jsstring \<Rightarrow> nat" where
  "code_point_len [] = 0"
| "code_point_len [c] = 1"
| "code_point_len (c # d # cs) = (if is_lead c \<and> is_trail d then 2 else 1)"

text \<open>\<open>String.prototype.trim\<close> and \<open>Array.prototype.join\<close>.\<close>

definition js_trim :: "jsstring \<Rightarrow> jsstring" where
  "js_trim s = rev (dropWhile is_space (rev (dropWhile is_space s)))"

fun js_join :: "jsstring \<Rightarrow> jsstring list \<Rightarrow> jsstring" where
  "js_join sep [] = []"
| "js_join sep [x] = x"
| "js_join sep (x # y # ys) = x @ sep @ js_join sep (y # ys)"

section \<open>Tokenizer (tokens/tokenize.js)\<close>

record token =
  tok_text :: jsstring
  tok_start :: nat
  tok_end :: nat
  isSpace :: bool

text \<open>
  \<open>match_here s\<close> is the length of the match of \<open>(\s+|\w+|[^\w\s])\<close> anchored at the head
  of \<open>s\<close>: the alternatives are tried in order, \<open>+\<close> is greedy and nothing follows it.
\<close>

definition match_here :: "jsstring \<Rightarrow> nat option" where
  "match_here s =
     (let ns = length (takeWhile is_space s); nw = length (takeWhile is_word s)
      in if 0 < ns then Some ns
         else if 0 < nw then Some nw
         else (case s of
                 [] \<Rightarrow> None
               | c # _ \<Rightarrow>
                   if \<not> is_word c \<and> \<not> is_space c then Some (code_point_len s) else None))"

lemma code_point_len_pos: "s \<noteq> [] \<Longrightarrow> 0 < code_point_len s"
  by (cases s rule: code_point_len.cases) auto

lemma code_point_len_le: "code_point_len s \<le> length s"
  by (cases s rule: code_point_len.cases) auto

text \<open>
  \<open>re.exec\<close> on the text from \<open>lastIndex\<close> on: the leftmost match, as (characters
  skipped before it, its length); where no match starts, the search advances by one
  code point. \<open>None\<close> is \<open>null\<close>.
\<close>

function re_exec :: "jsstring \<Rightarrow> (nat \<times> nat) option" where
  "re_exec s =
     (case match_here s of
        Some n \<Rightarrow> Some (0, n)
      | None \<Rightarrow>
          (if s = [] then None
           else map_option (\<lambda>(k, n). (k + code_point_len s, n))
                  (re_exec (drop (code_point_len s) s))))"
  by pat_completeness auto
termination
  by (relation "measure length") (auto simp: code_point_len_pos)

declare re_exec.simps [simp del]

lemma match_here_bounds: "match_here s = Some n \<Longrightarrow> 0 < n \<and> n \<le> length s"
  using code_point_len_le [of s] code_point_len_pos [of s]
  by (auto simp: match_here_def Let_def length_takeWhile_le split: if_splits list.splits)

lemma re_exec_bounds: "re_exec s = Some (k, n) \<Longrightarrow> 0 < n \<and> k + n \<le> length s"
proof (induction s arbitrary: k n rule: re_exec.induct)
  case (1 s)
  show ?case
  proof (cases "match_here s")
    case (Some m)
    with "1.prems" match_here_bounds [of s m] show ?thesis
      by (simp add: re_exec.simps [of s])
  next
    case None
    with "1.prems" have ne: "s \<noteq> []"
      by (auto simp: re_exec.simps [of s] split: if_splits)
    with None "1.prems" obtain k' where
      r: "re_exec (drop (code_point_len s) s) = Some (k', n)" and k: "k = k' + code_point_len s"
      by (auto simp: re_exec.simps [of s])
    from "1.IH" [OF None ne r] have "0 < n \<and> k' + n \<le> length s - code_point_len s"
      by simp
    with k code_point_len_le [of s] show ?thesis by arith
  qed
qed

text \<open>
  The loop of \<open>tokenizeWithOffsets\<close>: \<open>s\<close> is the text from the regular expression's
  \<open>lastIndex\<close> on, \<open>i\<close> the function's own offset counter (it does not read \<open>m.index\<close>).
  \<open>isSpace\<close> is \<open>/\s/u.test(tok)\<close>: the token contains a whitespace character.
\<close>

function tok_loop :: "jsstring \<Rightarrow> nat \<Rightarrow> token list" where
  "tok_loop s i =
     (case re_exec s of
        None \<Rightarrow> []
      | Some (k, n) \<Rightarrow>
          (let tok = take n (drop k s)
           in \<lparr>tok_text = tok, tok_start = i, tok_end = i + length tok,
               isSpace = list_ex is_space tok\<rparr>
              # tok_loop (drop (k + n) s) (i + length tok)))"
  by pat_completeness auto
termination
proof (relation "measure (\<lambda>(s, i). length s)", goal_cases)
  case 1
  show ?case by simp
next
  case (2 s i x2 k n tok)
  then have "re_exec s = Some (k, n)" by simp
  from re_exec_bounds [OF this] have "length s - (k + n) < length s" by arith
  then show ?case by simp
qed

declare tok_loop.simps [simp del]

definition tokenizeWithOffsets :: "jsstring \<Rightarrow> token list" where
  "tokenizeWithOffsets str = tok_loop str 0"

section \<open>Model state (core/state.js)\<close>

text \<open>
  Attribute values are \<open>null\<close>, strings or numbers; \<open>Inherited\<close> stands for a member of
  \<open>Object.prototype\<close> (a function, or the prototype object itself for \<open>__proto__\<close>), which
  is what reading a plain object gives for such a name when the object holds no key of that
  name itself. A missing key is \<open>undefined\<close>. Numbers are kept abstract (type \<open>'n\<close>): the
  host's \<open>Number(raw)\<close> conversion and \<open>Number.isNaN\<close> are taken as given. An object used as
  a dictionary is an association list of its own keys in key order.
\<close>

datatype 'n attr_value = Null | Str jsstring | Num 'n | Inherited

type_synonym 'n attrs = "(jsstring \<times> 'n attr_value) list"

record 'n js_number =
  Number :: "jsstring \<Rightarrow> 'n"
  isNaN :: "'n \<Rightarrow> bool"

record span =
  span_start :: int
  span_end :: int

record 'n entity =
  ent_id :: jsstring
  ent_class :: jsstring
  ent_label :: jsstring
  ent_attrs :: "'n attrs"
  ent_span :: span
  tokenRange :: "nat \<times> nat"

record 'n relation =
  rel_id :: jsstring
  predicate :: "jsstring option"
  subject :: "jsstring option"
  object :: "jsstring option"
  rel_attrs :: "'n attrs"
  attrOrder :: "(jsstring list \<times> jsstring list \<times> jsstring list) option"

text \<open>
  The schema. A class attribute is read through \<open>spec.nullable\<close> (truthy) and
  \<open>spec.type === 'number'\<close>. A relation attribute has \<open>nullable\<close> (\<open>true\<close>, \<open>false\<close> or
  missing) and a \<open>kind\<close>; an \<open>enum\<close> kind carries its \<open>enum\<close> array and an \<open>entity\<close> kind its
  \<open>classes\<close> array. A relation's \<open>subject\<close> and \<open>object\<close> class lists may be missing (the
  source reads them with \<open>?.\<close>).
\<close>

record class_attr_spec =
  ca_nullable :: bool
  ca_number :: bool

datatype attr_kind = KEnum "jsstring list" | KNumber | KEntity "jsstring list" | KOther

record attr_spec =
  nullable :: "bool option"
  kind :: attr_kind

record rel_spec =
  rs_subject :: "jsstring list option"
  rs_object :: "jsstring list option"
  rs_attributes :: "(jsstring \<times> attr_spec) list"

datatype ui_mode = ModeCreate | ModeEdit

text \<open>The objects \<open>state\<close> and \<open>ui\<close> of core/state.js, as one record.\<close>

record 'n state =
  classes :: "(jsstring \<times> (jsstring \<times> class_attr_spec) list) list"
  cursor :: nat
  total :: nat
  current :: "(jsstring \<times> jsstring) option"
  tokens :: "token list"
  startIdx :: "nat option"
  endIdx :: "nat option"
  annotations :: "'n entity list"
  saved_exists :: bool
  saved_wasEmpty :: bool
  relations :: "'n relation list"
  relationsMeta :: "(jsstring \<times> rel_spec) list"
  mode :: ui_mode
  editId :: "jsstring option"
  relEditingId :: "jsstring option"
  dirty :: bool

datatype js_error = TypeError

section \<open>Helpers (core/helpers.js)\<close>

definition entityById :: "'n state \<Rightarrow> jsstring \<Rightarrow> 'n entity option" where
  "entityById s i = find (\<lambda>a. ent_id a = i) (annotations s)"

text \<open>
  The loop of \<open>spanToTokenRange\<close> from index \<open>i\<close> on, with the current \<open>i0\<close> and \<open>i1\<close>;
  a non-space token that starts at or after the span's end stops it, after the two
  assignments.
\<close>

fun span_loop ::
  "int \<Rightarrow> int \<Rightarrow> token list \<Rightarrow> nat \<Rightarrow> nat option \<Rightarrow> nat option \<Rightarrow> nat option \<times> nat option"
where
  "span_loop st en [] i i0 i1 = (i0, i1)"
| "span_loop st en (t # ts) i i0 i1 =
     (if isSpace t then span_loop st en ts (Suc i) i0 i1
      else
        (let i0' = (if i0 = None \<and> st < int (tok_end t) then Some i else i0);
             i1' = (if int (tok_start t) < en then Some i else i1)
         in if en \<le> int (tok_start t) then (i0', i1')
            else span_loop st en ts (Suc i) i0' i1'))"

definition spanToTokenRange :: "'n state \<Rightarrow> span \<Rightarrow> (nat \<times> nat) option" where
  "spanToTokenRange s sp =
     (case span_loop (span_start sp) (span_end sp) (tokens s) 0 None None of
        (Some i0, Some i1) \<Rightarrow> Some (i0, i1)
      | _ \<Rightarrow> None)"

definition selected_part :: "token list \<Rightarrow> nat \<Rightarrow> jsstring" where
  "selected_part toks i =
     (if i < length toks \<and> \<not> isSpace (toks ! i)
      then tok_text (toks ! i)
           @ (if Suc i < length toks \<and> isSpace (toks ! Suc i) then tok_text (toks ! Suc i) else [])
      else [])"

definition surfaceFormFromSelection :: "'n state \<Rightarrow> jsstring" where
  "surfaceFormFromSelection s =
     (case (startIdx s, endIdx s) of
        (Some a, Some b) \<Rightarrow> js_trim (concat (map (selected_part (tokens s)) [a..<Suc b]))
      | _ \<Rightarrow> [])"

section \<open>Entity modal (modals/entity.js)\<close>

text \<open>
  What the handlers read from the page: the value of \<open>#sel-class\<close> (\<open>None\<close> when the element
  is missing), the value of \<open>#inp-label\<close>, and the values of the \<open>#attr-<name>\<close> inputs
  that exist.
\<close>

record entity_form =
  sel_class :: "jsstring option"
  inp_label :: "jsstring option"
  attr_nodes :: "(jsstring \<times> jsstring) list"

definition openEntityModal :: "ui_mode \<Rightarrow> jsstring option \<Rightarrow> 'n state \<Rightarrow> 'n state" where
  "openEntityModal m annoId s = s\<lparr>mode := m, editId := annoId\<rparr>"

fun entity_attrs ::
  "'n js_number \<Rightarrow> (jsstring \<times> jsstring) list \<Rightarrow> (jsstring \<times> class_attr_spec) list \<Rightarrow> 'n attrs"
where
  "entity_attrs N nodes [] = []"
| "entity_attrs N nodes ((attr, spec) # rest) =
     (case map_of nodes attr of
        None \<Rightarrow> entity_attrs N nodes rest
      | Some raw \<Rightarrow>
          (attr,
           if raw = [] \<and> ca_nullable spec then Null
           else if ca_number spec then (if raw = [] then Null else Num (Number N raw))
           else Str raw) # entity_attrs N nodes rest)"

text \<open>
  \<open>renderText\<close> gives every non-space token a \<open>.token\<close> element carrying its index and
  offsets; \<open>querySelector\<close> finds none for any other index.
\<close>

definition token_node :: "token list \<Rightarrow> nat \<Rightarrow> token option" where
  "token_node toks i = (if i < length toks \<and> \<not> isSpace (toks ! i) then Some (toks ! i) else None)"

text \<open>\<open>T${n}\<close>: the decimal digits of a number.\<close>

fun digits :: "nat \<Rightarrow> jsstring" where
  "digits n = (if n < 10 then [of_nat (48 + n)] else digits (n div 10) @ [of_nat (48 + n mod 10)])"

declare digits.simps [simp del]

fun update_first :: "('a \<Rightarrow> bool) \<Rightarrow> ('a \<Rightarrow> 'a) \<Rightarrow> 'a list \<Rightarrow> 'a list" where
  "update_first P f [] = []"
| "update_first P f (x # xs) = (if P x then f x # xs else x # update_first P f xs)"

definition confirmSaveAnnotation ::
  "'n js_number \<Rightarrow> entity_form \<Rightarrow> 'n state \<Rightarrow> js_error + 'n state"
where
  "confirmSaveAnnotation N form s =
     (case sel_class form of
        None \<Rightarrow> Inr s
      | Some klass \<Rightarrow>
          (let typed = (case inp_label form of None \<Rightarrow> [] | Some v \<Rightarrow> js_trim v);
               label = (if typed = [] then surfaceFormFromSelection s else typed);
               meta = (case map_of (classes s) klass of None \<Rightarrow> [] | Some m \<Rightarrow> m);
               attrs = entity_attrs N (attr_nodes form) meta;
               finish = (\<lambda>s'. s'\<lparr>dirty := True, startIdx := None, endIdx := None\<rparr>)
           in case mode s of
                ModeCreate \<Rightarrow>
                  (case (startIdx s, endIdx s) of
                     (Some a, Some b) \<Rightarrow>
                       (case (token_node (tokens s) a, token_node (tokens s) b) of
                          (Some ta, Some tb) \<Rightarrow>
                            Inr (finish (s\<lparr>annotations := annotations s @
                              [\<lparr>ent_id = 0x54 # digits (length (annotations s) + 1),
                                ent_class = klass, ent_label = label, ent_attrs = attrs,
                                ent_span = \<lparr>span_start = int (tok_start ta),
                                            span_end = int (tok_end tb)\<rparr>,
                                tokenRange = (a, b)\<rparr>]\<rparr>))
                        | _ \<Rightarrow> Inl TypeError)
                   | _ \<Rightarrow> Inr s)
              | ModeEdit \<Rightarrow>
                  (case find (\<lambda>a. Some (ent_id a) = editId s) (annotations s) of
                     None \<Rightarrow> Inr s
                   | Some _ \<Rightarrow>
                       Inr (finish (s\<lparr>annotations :=
                         update_first (\<lambda>a. Some (ent_id a) = editId s)
                           (\<lambda>a. a\<lparr>ent_class := klass, ent_label := label, ent_attrs := attrs\<rparr>)
                           (annotations s)\<rparr>)))))"

definition deleteAnnotation :: "'n state \<Rightarrow> 'n state" where
  "deleteAnnotation s =
     (if mode s \<noteq> ModeEdit then s
      else s\<lparr>annotations := filter (\<lambda>a. Some (ent_id a) \<noteq> editId s) (annotations s),
             relations := filter (\<lambda>r. subject r \<noteq> editId s \<and> object r \<noteq> editId s) (relations s),
             dirty := True\<rparr>)"

text \<open>
  A session of entity operations: the user drags over tokens \<open>a\<close> to \<open>b\<close>, opens the modal in
  create mode and confirms; or opens it on an entity's chip (edit mode) and confirms or
  deletes. \<open>prepare\<close> is what precedes the button (the selection and the opening of the
  modal), \<open>handler\<close> the button's handler. A handler that throws has changed nothing by
  then: the state stays as \<open>prepare\<close> left it and the session goes on.
\<close>

datatype entity_op =
  CreateEntity nat nat entity_form
| EditEntity jsstring entity_form
| DeleteEntity jsstring

fun prepare :: "entity_op \<Rightarrow> 'n state \<Rightarrow> 'n state" where
  "prepare (CreateEntity a b form) s =
     openEntityModal ModeCreate None (s\<lparr>startIdx := Some a, endIdx := Some b\<rparr>)"
| "prepare (EditEntity i form) s = openEntityModal ModeEdit (Some i) s"
| "prepare (DeleteEntity i) s = openEntityModal ModeEdit (Some i) s"

fun handler :: "'n js_number \<Rightarrow> entity_op \<Rightarrow> 'n state \<Rightarrow> js_error + 'n state" where
  "handler N (CreateEntity a b form) s = confirmSaveAnnotation N form s"
| "handler N (EditEntity i form) s = confirmSaveAnnotation N form s"
| "handler N (DeleteEntity i) s = Inr (deleteAnnotation s)"

definition entity_step :: "'n js_number \<Rightarrow> entity_op \<Rightarrow> 'n state \<Rightarrow> 'n state" where
  "entity_step N x s =
     (case handler N x (prepare x s) of Inl e \<Rightarrow> prepare x s | Inr s' \<Rightarrow> s')"

fun run_ops :: "'n js_number \<Rightarrow> entity_op list \<Rightarrow> 'n state \<Rightarrow> 'n state" where
  "run_ops N [] s = s"
| "run_ops N (x # xs) s = run_ops N xs (entity_step N x s)"

fun is_delete :: "entity_op \<Rightarrow> bool" where
  "is_delete (DeleteEntity i) = True"
| "is_delete _ = False"

section \<open>Relations (render/relations.js)\<close>

text \<open>\<open>spec.subject?.includes(c)\<close>: falsy when the list is missing.\<close>

definition includes_opt :: "jsstring list option \<Rightarrow> jsstring \<Rightarrow> bool" where
  "includes_opt xs c = (case xs of None \<Rightarrow> False | Some l \<Rightarrow> c \<in> set l)"

datatype orientation = Forward | Reverse | Both

datatype role = RoleSubject | RoleObject | RoleEither

definition relationOrientationForPair ::
  "'n state \<Rightarrow> jsstring \<Rightarrow> jsstring \<Rightarrow> jsstring \<Rightarrow> orientation option"
where
  "relationOrientationForPair s relName leftClass rightClass =
     (case map_of (relationsMeta s) relName of
        None \<Rightarrow> None
      | Some spec \<Rightarrow>
          if leftClass = [] \<or> rightClass = [] then None
          else
            (let fwd = includes_opt (rs_subject spec) leftClass
                       \<and> includes_opt (rs_object spec) rightClass;
                 rev = includes_opt (rs_subject spec) rightClass
                       \<and> includes_opt (rs_object spec) leftClass
             in if fwd \<and> \<not> rev then Some Forward
                else if rev \<and> \<not> fwd then Some Reverse
                else if fwd \<and> rev then Some Both
                else None))"

definition firstEntityRoleFor :: "'n state \<Rightarrow> jsstring \<Rightarrow> jsstring \<Rightarrow> role option" where
  "firstEntityRoleFor s relName klass =
     (case map_of (relationsMeta s) relName of
        None \<Rightarrow> None
      | Some spec \<Rightarrow>
          (let subjOk = includes_opt (rs_subject spec) klass;
               objOk = includes_opt (rs_object spec) klass
           in if subjOk \<and> \<not> objOk then Some RoleSubject
              else if \<not> subjOk \<and> objOk then Some RoleObject
              else if subjOk \<and> objOk then Some RoleEither
              else None))"

text \<open>
  The rows of the relation list on the page, by \<open>data-rel-id\<close>: whether the row carries the
  class \<open>invalid\<close>, and the text and the \<open>show\<close> class of its \<open>.rel-error\<close> element when it
  has one. \<open>highlight\<close> is the closure of that name in \<open>validateRelations\<close>, without its
  \<open>ok = false\<close>; the timers that take the classes off again later are not modelled.
\<close>

record rel_row =
  row_invalid :: bool
  row_error :: "(jsstring \<times> bool) option"

type_synonym rel_rows = "jsstring \<Rightarrow> rel_row option"

definition mark_row :: "jsstring \<Rightarrow> rel_row \<Rightarrow> rel_row" where
  "mark_row msg row =
     row\<lparr>row_invalid := True,
         row_error :=
           map_option (\<lambda>_. (if msg = [] then lit ''Incomplete relation'' else msg, True))
             (row_error row)\<rparr>"

definition highlight :: "jsstring \<Rightarrow> jsstring \<Rightarrow> rel_rows \<Rightarrow> rel_rows" where
  "highlight rid msg rows =
     (case rows rid of None \<Rightarrow> rows | Some row \<Rightarrow> rows(rid \<mapsto> mark_row msg row))"

text \<open>
  The attribute loop of \<open>validateRelations\<close>: the message of the first attribute that
  fails (the loop breaks there), \<open>None\<close> when it runs to its end.
\<close>

text \<open>
  \<open>(r.attrs || {})[name]\<close>: the object's own key, else the member of \<open>Object.prototype\<close> of
  that name, else \<open>undefined\<close>.
\<close>

definition prototype_names :: "jsstring list" where
  "prototype_names =
     map lit [''constructor'', ''__defineGetter__'', ''__defineSetter__'', ''hasOwnProperty'',
              ''__lookupGetter__'', ''__lookupSetter__'', ''isPrototypeOf'',
              ''propertyIsEnumerable'', ''toString'', ''valueOf'', ''__proto__'',
              ''toLocaleString'']"

definition js_get :: "'n attrs \<Rightarrow> jsstring \<Rightarrow> 'n attr_value option" where
  "js_get a name =
     (case map_of a name of
        Some v \<Rightarrow> Some v
      | None \<Rightarrow> if name \<in> set prototype_names then Some Inherited else None)"

text \<open>
  \<open>v === undefined || v === null || v === ''\<close>; \<open>aspec.enum.includes(v)\<close>, where the allowed
  values are strings; \<open>Number.isNaN(Number(v))\<close>, where a function or an object converts to
  \<open>NaN\<close>; \<open>entityById(v)\<close>, where ids are strings.
\<close>

definition absent :: "'n attr_value option \<Rightarrow> bool" where
  "absent v =
     (case v of
        None \<Rightarrow> True
      | Some Null \<Rightarrow> True
      | Some (Str x) \<Rightarrow> x = []
      | Some (Num _) \<Rightarrow> False
      | Some Inherited \<Rightarrow> False)"

definition enum_includes :: "jsstring list \<Rightarrow> 'n attr_value option \<Rightarrow> bool" where
  "enum_includes vals v = (case v of Some (Str x) \<Rightarrow> x \<in> set vals | _ \<Rightarrow> False)"

definition nan_value :: "'n js_number \<Rightarrow> 'n attr_value option \<Rightarrow> bool" where
  "nan_value N v =
     (case v of
        None \<Rightarrow> True
      | Some Null \<Rightarrow> False
      | Some (Str x) \<Rightarrow> isNaN N (Number N x)
      | Some (Num x) \<Rightarrow> isNaN N x
      | Some Inherited \<Rightarrow> True)"

definition value_entity :: "'n state \<Rightarrow> 'n attr_value option \<Rightarrow> 'n entity option" where
  "value_entity s v = (case v of Some (Str x) \<Rightarrow> entityById s x | _ \<Rightarrow> None)"

definition quoted :: "jsstring \<Rightarrow> jsstring" where
  "quoted name = 0x27 # name @ [0x27]"

fun attr_error ::
  "'n js_number \<Rightarrow> 'n state \<Rightarrow> 'n relation \<Rightarrow> (jsstring \<times> attr_spec) list \<Rightarrow> jsstring option"
where
  "attr_error N s r [] = None"
| "attr_error N s r ((name, aspec) # rest) =
     (let v = js_get (rel_attrs r) name
      in if absent v \<and> nullable aspec = Some False
         then Some (lit ''Missing required attribute: '' @ name)
         else if absent v then attr_error N s r rest
         else
           (case kind aspec of
              KEnum vals \<Rightarrow>
                if \<not> enum_includes vals v then Some (quoted name @ lit '' has invalid value'')
                else attr_error N s r rest
            | KNumber \<Rightarrow>
                if nan_value N v then Some (quoted name @ lit '' must be a number'')
                else attr_error N s r rest
            | KEntity cls \<Rightarrow>
                (case value_entity s v of
                   None \<Rightarrow>
                     Some (quoted name @ lit '' must refer to a '' @ js_join (lit '' or '') cls)
                 | Some ent \<Rightarrow>
                     if ent_class ent \<notin> set cls
                     then Some (quoted name @ lit '' must refer to a '' @ js_join (lit '' or '') cls)
                     else attr_error N s r rest)
            | KOther \<Rightarrow> attr_error N s r rest))"

text \<open>
  One pass of the outer loop of \<open>validateRelations\<close> for relation \<open>r\<close>: the message
  \<open>highlight\<close> is called with, \<open>None\<close> when no check fails.
\<close>

definition relation_error :: "'n js_number \<Rightarrow> 'n state \<Rightarrow> 'n relation \<Rightarrow> jsstring option" where
  "relation_error N s r =
     (case (subject r, object r, predicate r) of
        (Some sid, Some oid, Some p) \<Rightarrow>
          if sid = [] \<or> oid = [] \<or> p = [] \<or> js_trim p = []
          then Some (lit ''Relation needs subject, type, and object'')
          else
            (case map_of (relationsMeta s) p of
               None \<Rightarrow> Some (lit ''Unknown relation'')
             | Some spec \<Rightarrow>
                 (case (entityById s sid, entityById s oid) of
                    (Some left, Some right) \<Rightarrow>
                      (let fwd = includes_opt (rs_subject spec) (ent_class left)
                                 \<and> includes_opt (rs_object spec) (ent_class right);
                           rev = includes_opt (rs_subject spec) (ent_class right)
                                 \<and> includes_opt (rs_object spec) (ent_class left)
                       in if \<not> fwd \<and> \<not> rev
                          then Some (lit ''Classes not allowed for this relation'')
                          else attr_error N s r (rs_attributes spec))
                  | _ \<Rightarrow> Some (lit ''Dangling entity reference'')))
      | _ \<Rightarrow> Some (lit ''Relation needs subject, type, and object''))"

fun validate_loop ::
  "'n js_number \<Rightarrow> 'n state \<Rightarrow> 'n relation list \<Rightarrow> bool \<times> rel_rows \<Rightarrow> bool \<times> rel_rows"
where
  "validate_loop N s [] acc = acc"
| "validate_loop N s (r # rs) (ok, rows) =
     (case relation_error N s r of
        None \<Rightarrow> validate_loop N s rs (ok, rows)
      | Some msg \<Rightarrow> validate_loop N s rs (False, highlight (rel_id r) msg rows))"

text \<open>\<open>validateRelations\<close>: its return value \<open>ok\<close> and the rows as it leaves them.\<close>

definition validateRelations :: "'n js_number \<Rightarrow> 'n state \<Rightarrow> rel_rows \<Rightarrow> bool \<times> rel_rows" where
  "validateRelations N s rows = validate_loop N s (relations s) (True, rows)"

text \<open>The remove button of a relation row and the delete button of the relation modal.\<close>

definition deleteRelation :: "jsstring \<Rightarrow> 'n state \<Rightarrow> 'n state" where
  "deleteRelation rid s = s\<lparr>relations := filter (\<lambda>r. rel_id r \<noteq> rid) (relations s)\<rparr>"

section \<open>Relation modal (modals/relation.js)\<close>

text \<open>
  What \<open>confirmRelation\<close> reads from the page: the value of \<open>#sel-rel\<close> (\<open>None\<close> when the
  element is missing: reading its value then throws), the attribute rows of the three groups,
  each with its \<open>data-attr\<close> name and the value of its input when it has one, and the value
  of the \<open>edge_predicate\<close> input when it exists.
\<close>

record relation_form =
  sel_rel :: "jsstring option"
  subjectRows :: "(jsstring \<times> jsstring option) list"
  objectRows :: "(jsstring \<times> jsstring option) list"
  stmtRows :: "(jsstring \<times> jsstring option) list"
  edge_predicate_node :: "jsstring option"

fun set_key :: "'k \<Rightarrow> 'v \<Rightarrow> ('k \<times> 'v) list \<Rightarrow> ('k \<times> 'v) list" where
  "set_key k v [] = [(k, v)]"
| "set_key k v ((k', v') # kvs) = (if k' = k then (k, v) # kvs else (k', v') # set_key k v kvs)"

fun pushRows ::
  "'n js_number \<Rightarrow> (jsstring \<times> attr_spec) list \<Rightarrow> (jsstring \<times> jsstring option) list \<Rightarrow>
   'n attrs \<Rightarrow> 'n attrs"
where
  "pushRows N specattrs [] out = out"
| "pushRows N specattrs ((attr, node) # rows) out =
     (case (map_of specattrs attr, node) of
        (Some aspec, Some raw) \<Rightarrow>
          pushRows N specattrs rows
            (set_key attr
               (if raw = [] \<and> nullable aspec = Some True then Null
                else if kind aspec = KNumber then (if raw = [] then Null else Num (Number N raw))
                else Str raw)
               out)
      | _ \<Rightarrow> pushRows N specattrs rows out)"

definition relation_attrs ::
  "'n js_number \<Rightarrow> (jsstring \<times> attr_spec) list \<Rightarrow> relation_form \<Rightarrow> 'n attrs"
where
  "relation_attrs N specattrs form =
     (let out1 = pushRows N specattrs (subjectRows form) [];
          out2 = (case (map_of specattrs (lit ''edge_predicate''), edge_predicate_node form) of
                    (Some _, Some v) \<Rightarrow>
                      set_key (lit ''edge_predicate'') (if v = [] then Null else Str v) out1
                  | _ \<Rightarrow> out1)
      in pushRows N specattrs (stmtRows form) (pushRows N specattrs (objectRows form) out2))"

text \<open>\<open>rel.subject ? entityById(rel.subject) : null\<close>.\<close>

definition endpoint :: "'n state \<Rightarrow> jsstring option \<Rightarrow> 'n entity option" where
  "endpoint s i = (case i of None \<Rightarrow> None | Some x \<Rightarrow> if x = [] then None else entityById s x)"

definition orient :: "'n state \<Rightarrow> jsstring \<Rightarrow> 'n relation \<Rightarrow> 'n relation" where
  "orient s name rel =
     (case (endpoint s (subject rel), endpoint s (object rel)) of
        (Some left, Some right) \<Rightarrow>
          if relationOrientationForPair s name (ent_class left) (ent_class right) = Some Reverse
          then rel\<lparr>subject := object rel, object := subject rel\<rparr>
          else rel
      | (Some left, None) \<Rightarrow>
          if firstEntityRoleFor s name (ent_class left) = Some RoleObject
          then rel\<lparr>subject := None, object := subject rel\<rparr>
          else rel
      | (None, Some right) \<Rightarrow>
          if firstEntityRoleFor s name (ent_class right) = Some RoleSubject
          then rel\<lparr>subject := object rel, object := None\<rparr>
          else rel
      | (None, None) \<Rightarrow> rel)"

definition confirm_update ::
  "'n js_number \<Rightarrow> relation_form \<Rightarrow> 'n state \<Rightarrow> jsstring \<Rightarrow> 'n relation \<Rightarrow> 'n relation"
where
  "confirm_update N form s name rel =
     (let specattrs = (case map_of (relationsMeta s) name of
                         None \<Rightarrow> []
                       | Some spec \<Rightarrow> rs_attributes spec)
      in (orient s name (rel\<lparr>predicate := Some name\<rparr>))
           \<lparr>rel_attrs := relation_attrs N specattrs form,
            attrOrder := Some (map fst (subjectRows form), map fst (objectRows form),
                               map fst (stmtRows form))\<rparr>)"

definition confirmRelation ::
  "'n js_number \<Rightarrow> relation_form \<Rightarrow> 'n state \<Rightarrow> js_error + 'n state"
where
  "confirmRelation N form s =
     (case find (\<lambda>r. Some (rel_id r) = relEditingId s) (relations s) of
        None \<Rightarrow> Inr s
      | Some _ \<Rightarrow>
          (case sel_rel form of
             None \<Rightarrow> Inl TypeError
           | Some name \<Rightarrow>
               Inr (s\<lparr>relations :=
                 update_first (\<lambda>r. Some (rel_id r) = relEditingId s)
                   (confirm_update N form s name) (relations s)\<rparr>)))"

section \<open>Loading a document (main.js)\<close>

text \<open>
  The saved annotations as the backend returns them, and the three outcomes of
  \<open>API.getAnnotation\<close>: the request fails (the promise rejects), the document has no saved
  annotations (\<open>null\<close>), or the saved object arrives. \<open>entities\<close> and \<open>relations\<close> are
  \<open>None\<close> when they are not arrays.
\<close>

record 'n saved_entity =
  se_id :: jsstring
  se_class :: jsstring
  se_label :: jsstring
  se_span :: span
  se_attributes :: "'n attrs option"

record 'n saved_relation =
  sr_id :: jsstring
  sr_predicate :: "jsstring option"
  sr_subject :: "jsstring option"
  sr_object :: "jsstring option"
  sr_attributes :: "'n attrs option"

record 'n saved_doc =
  sd_entities :: "'n saved_entity list option"
  sd_relations :: "'n saved_relation list option"

datatype 'n fetch_result = FetchFailed | NotFound | Saved "'n saved_doc"

record text_response =
  tr_id :: jsstring
  tr_text :: jsstring
  tr_cursor :: nat
  tr_total :: nat

definition startsWith :: "jsstring \<Rightarrow> jsstring \<Rightarrow> bool" where
  "startsWith k p = (take (length p) k = p)"

fun hydrate_entities :: "'n state \<Rightarrow> 'n saved_entity list \<Rightarrow> 'n entity list" where
  "hydrate_entities s [] = []"
| "hydrate_entities s (ent # ents) =
     (case spanToTokenRange s (se_span ent) of
        None \<Rightarrow> hydrate_entities s ents
      | Some tr \<Rightarrow>
          \<lparr>ent_id = se_id ent, ent_class = se_class ent, ent_label = se_label ent,
           ent_attrs = (case se_attributes ent of None \<Rightarrow> [] | Some a \<Rightarrow> a),
           ent_span = \<lparr>span_start = span_start (se_span ent), span_end = span_end (se_span ent)\<rparr>,
           tokenRange = tr\<rparr> # hydrate_entities s ents)"

definition hydrate_relation :: "'n saved_relation \<Rightarrow> 'n relation" where
  "hydrate_relation r =
     (let attrs = (case sr_attributes r of None \<Rightarrow> [] | Some a \<Rightarrow> a);
          keys = map fst attrs
      in \<lparr>rel_id = sr_id r,
          predicate = (case sr_predicate r of None \<Rightarrow> None
                       | Some p \<Rightarrow> if p = [] then None else Some p),
          subject = sr_subject r,
          object = sr_object r,
          rel_attrs = attrs,
          attrOrder = Some
            (filter (\<lambda>k. startsWith k (lit ''subject_'')) keys,
             filter (\<lambda>k. startsWith k (lit ''object_'')) keys,
             filter (\<lambda>k. k \<noteq> lit ''edge_predicate'' \<and> \<not> startsWith k (lit ''subject_'')
                          \<and> \<not> startsWith k (lit ''object_'')) keys)\<rparr>)"

text \<open>\<open>ids.has(r.subject) && ids.has(r.object)\<close>, where \<open>ids\<close> are the ids of the entities in the state.\<close>

definition ids_have :: "'n state \<Rightarrow> jsstring option \<Rightarrow> bool" where
  "ids_have s i = (case i of None \<Rightarrow> False | Some x \<Rightarrow> x \<in> set (map ent_id (annotations s)))"

definition hydrate_relations :: "'n state \<Rightarrow> 'n saved_relation list \<Rightarrow> 'n relation list" where
  "hydrate_relations s rels =
     map hydrate_relation (filter (\<lambda>r. ids_have s (sr_subject r) \<and> ids_have s (sr_object r)) rels)"

text \<open>
  \<open>loadTextResponse\<close>, with the outcome of its one request as an argument. The page is taken
  to hold the \<open>#text\<close> element, so that \<open>renderText\<close> tokenizes the new text.
\<close>

definition loadTextResponse :: "text_response \<Rightarrow> 'n fetch_result \<Rightarrow> 'n state \<Rightarrow> 'n state" where
  "loadTextResponse data fetched s =
     (let s1 = s\<lparr>current := Some (tr_id data, tr_text data), cursor := tr_cursor data,
                 total := tr_total data, annotations := [], startIdx := None, endIdx := None,
                 saved_exists := False, saved_wasEmpty := False,
                 tokens := tokenizeWithOffsets (tr_text data)\<rparr>;
          s2 = (case fetched of
                  FetchFailed \<Rightarrow> s1
                | NotFound \<Rightarrow> s1\<lparr>relations := []\<rparr>
                | Saved d \<Rightarrow>
                    (let s3 = (case sd_entities d of
                                 None \<Rightarrow> s1
                               | Some ents \<Rightarrow>
                                   s1\<lparr>saved_exists := True, saved_wasEmpty := (ents = []),
                                      annotations := hydrate_entities s1 ents\<rparr>)
                     in s3\<lparr>relations := (case sd_relations d of
                                            None \<Rightarrow> []
                                          | Some rels \<Rightarrow> hydrate_relations s3 rels)\<rparr>))
      in s2\<lparr>dirty := False\<rparr>)"

text \<open>
  The drop handler of the relations area (\<open>wireRelationsDropzone\<close>): the dragged text becomes
  the subject of a new relation \<open>R<n+1>\<close>; it is not looked up among the entities.
\<close>

definition dropOnRelations :: "jsstring \<Rightarrow> 'n state \<Rightarrow> 'n state" where
  "dropOnRelations entId s =
     (if entId = [] then s
      else s\<lparr>relations := relations s @
               [\<lparr>rel_id = 0x52 # digits (length (relations s) + 1), predicate = None,
                 subject = Some entId, object = None, rel_attrs = [], attrOrder = None\<rparr>],
             dirty := True\<rparr>)"

section \<open>Predicates used in the statements\<close>

text \<open>
  \<open>tiles_from i ts\<close>: the tokens start at \<open>i\<close> and each ends its own length later, where the
  next one starts. \<open>ordered_tokens\<close>: tokens in text order, each non-empty and ending before
  the next one starts. \<open>meets\<close>: a non-space token intersects the span \<open>[st, en)\<close>.
  \<open>found_at\<close>: \<open>x\<close> is the index, counted from \<open>i\<close>, of a token of the list with the
  property \<open>P\<close>.
\<close>

fun tiles_from :: "nat \<Rightarrow> token list \<Rightarrow> bool" where
  "tiles_from i [] = True"
| "tiles_from i (t # ts) =
     (tok_start t = i \<and> tok_end t = i + length (tok_text t) \<and> tiles_from (tok_end t) ts)"

fun ordered_tokens :: "token list \<Rightarrow> bool" where
  "ordered_tokens [] = True"
| "ordered_tokens (t # ts) =
     (tok_start t < tok_end t \<and> (\<forall>u\<in>set ts. tok_end t \<le> tok_start u) \<and> ordered_tokens ts)"

definition meets :: "int \<Rightarrow> int \<Rightarrow> token \<Rightarrow> bool" where
  "meets st en t \<longleftrightarrow> \<not> isSpace t \<and> st < int (tok_end t) \<and> int (tok_start t) < en"

definition found_at :: "(token \<Rightarrow> bool) \<Rightarrow> token list \<Rightarrow> nat \<Rightarrow> nat option \<Rightarrow> bool" where
  "found_at P ts i x \<longleftrightarrow> (\<exists>a<length ts. x = Some (i + a) \<and> P (ts ! a))"

text \<open>
  The message of the last relation in the list that fails and whose row id is \<open>k\<close>: what the
  row \<open>k\<close> shows after the validator's loop.
\<close>

fun last_error ::
  "'n js_number \<Rightarrow> 'n state \<Rightarrow> 'n relation list \<Rightarrow> jsstring \<Rightarrow> jsstring option"
where
  "last_error N s [] k = None"
| "last_error N s (r # rs) k =
     (case last_error N s rs k of
        Some m \<Rightarrow> Some m
      | None \<Rightarrow> if rel_id r = k then relation_error N s r else None)"

text \<open>The ids of the entities are \<open>T1\<close>, \<open>T2\<close>, ... in order.\<close>

definition sequential_ids :: "'n state \<Rightarrow> bool" where
  "sequential_ids s \<longleftrightarrow>
     map ent_id (annotations s) = map (\<lambda>k. 0x54 # digits k) [1..<Suc (length (annotations s))]"

section \<open>Initial state and sample inputs\<close>

text \<open>The initial \<open>state\<close> and \<open>ui\<close> of core/state.js.\<close>

definition init_state :: "'n state" where
  "init_state =
     \<lparr>classes = [], cursor = 0, total = 0, current = None, tokens = [], startIdx = None,
      endIdx = None, annotations = [], saved_exists = False, saved_wasEmpty = False,
      relations = [], relationsMeta = [], mode = ModeCreate, editId = None,
      relEditingId = None, dirty = False\<rparr>"

text \<open>Sample inputs for the closed instances below; none of them holds a number.\<close>

definition no_numbers :: "unit js_number" where
  "no_numbers = \<lparr>Number = (\<lambda>_. ()), isNaN = (\<lambda>_. False)\<rparr>"

definition form0 :: entity_form where
  "form0 = \<lparr>sel_class = Some (lit ''Person''), inp_label = Some [], attr_nodes = []\<rparr>"

definition session0 :: "unit state" where
  "session0 = init_state\<lparr>tokens := tokenizeWithOffsets (lit ''a b'')\<rparr>"

definition ops0 :: "entity_op list" where
  "ops0 = [CreateEntity 0 0 form0, EditEntity (lit ''T1'') form0, CreateEntity 2 2 form0]"

definition ops1 :: "entity_op list" where
  "ops1 = [CreateEntity 0 0 form0, CreateEntity 2 2 form0, DeleteEntity (lit ''T1''),
           CreateEntity 0 0 form0]"

definition ops2 :: "entity_op list" where
  "ops2 = [CreateEntity 0 0 form0, DeleteEntity (lit ''T1''), CreateEntity 0 0 form0]"

definition gap_state :: "unit state" where
  "gap_state = init_state\<lparr>tokens := tokenizeWithOffsets (lit ''a   b'')\<rparr>"

definition hello_state :: "unit state" where
  "hello_state = init_state\<lparr>tokens := tokenizeWithOffsets (lit ''hello world foo'')\<rparr>"

definition sample_entity :: "jsstring \<Rightarrow> jsstring \<Rightarrow> unit entity" where
  "sample_entity i c =
     \<lparr>ent_id = i, ent_class = c, ent_label = [], ent_attrs = [],
      ent_span = \<lparr>span_start = 0, span_end = 1\<rparr>, tokenRange = (0, 0)\<rparr>"

definition sample_relation ::
  "jsstring \<Rightarrow> jsstring option \<Rightarrow> jsstring option \<Rightarrow> jsstring option \<Rightarrow> unit relation" where
  "sample_relation i p sub obj =
     \<lparr>rel_id = i, predicate = p, subject = sub, object = obj, rel_attrs = [], attrOrder = None\<rparr>"

definition works_for :: rel_spec where
  "works_for = \<lparr>rs_subject = Some [lit ''Person''], rs_object = Some [lit ''Org''],
                rs_attributes = []\<rparr>"

definition pair_state :: "unit state" where
  "pair_state = init_state
     \<lparr>annotations := [sample_entity (lit ''T1'') (lit ''Person''),
                      sample_entity (lit ''T2'') (lit ''Org'')],
      relations := [sample_relation (lit ''R1'') None (Some (lit ''T2'')) (Some (lit ''T1''))],
      relationsMeta := [(lit ''WorksFor'', works_for)],
      relEditingId := Some (lit ''R1'')\<rparr>"

definition rel_form0 :: relation_form where
  "rel_form0 = \<lparr>sel_rel = Some (lit ''WorksFor''), subjectRows = [], objectRows = [],
                stmtRows = [], edge_predicate_node = None\<rparr>"

definition half_relation :: "unit relation" where
  "half_relation = sample_relation (lit ''R1'') (Some (lit ''WorksFor'')) (Some (lit ''T1'')) None"

definition half_state :: "unit state" where
  "half_state = pair_state\<lparr>relations := [half_relation]\<rparr>"

definition rows0 :: rel_rows where
  "rows0 = [lit ''R1'' \<mapsto> \<lparr>row_invalid = False, row_error = Some ([], False)\<rparr>]"

definition orphan_state :: "unit state" where
  "orphan_state = dropOnRelations (lit ''X'') init_state"

definition role_spec :: rel_spec where
  "role_spec = \<lparr>rs_subject = Some [lit ''Person''], rs_object = Some [lit ''Org''],
     rs_attributes = [(lit ''role'', \<lparr>nullable = Some False, kind = KEnum [lit ''ceo'']\<rparr>)]\<rparr>"

definition role_relation :: "unit relation" where
  "role_relation =
     sample_relation (lit ''R1'') (Some (lit ''WorksFor'')) (Some (lit ''T1'')) (Some (lit ''T2''))"

definition role_state :: "unit state" where
  "role_state = pair_state\<lparr>relations := [role_relation],
                             relationsMeta := [(lit ''WorksFor'', role_spec)]\<rparr>"

text \<open>
  A schema whose relation has one required attribute named \<open>constructor\<close> of the given
  kind, and a relation that stores no attribute.
\<close>

definition ctor_state :: "attr_kind \<Rightarrow> unit state" where
  "ctor_state k = pair_state
     \<lparr>relations := [role_relation],
      relationsMeta := [(lit ''WorksFor'',
        role_spec\<lparr>rs_attributes := [(lit ''constructor'', \<lparr>nullable = Some False, kind = k\<rparr>)]\<rparr>)]\<rparr>"

definition data0 :: text_response where
  "data0 = \<lparr>tr_id = lit ''d1'', tr_text = lit ''a b'', tr_cursor = 0, tr_total = 1\<rparr>"

definition saved0 :: "unit saved_doc" where
  "saved0 =
     \<lparr>sd_entities = Some
        [\<lparr>se_id = lit ''T1'', se_class = lit ''Person'', se_label = lit ''a'',
          se_span = \<lparr>span_start = 0, span_end = 1\<rparr>, se_attributes = None\<rparr>,
         \<lparr>se_id = lit ''T2'', se_class = lit ''Org'', se_label = lit ''x'',
          se_span = \<lparr>span_start = 7, span_end = 9\<rparr>, se_attributes = None\<rparr>],
      sd_relations = Some
        [\<lparr>sr_id = lit ''R1'', sr_predicate = Some (lit ''WorksFor''),
          sr_subject = Some (lit ''T1''), sr_object = Some (lit ''T2''), sr_attributes = None\<rparr>,
         \<lparr>sr_id = lit ''R2'', sr_predicate = Some (lit ''Knows''),
          sr_subject = Some (lit ''T1''), sr_object = Some (lit ''T1''), sr_attributes = None\<rparr>]\<rparr>"

section \<open>The tokenizer tiles its input\<close>

lemma word_not_space: "is_word c \<Longrightarrow> \<not> is_space c"
  unfolding is_word_def is_space_def by (auto simp: word_le_nat_alt)

lemma trail_not_space: "is_trail c \<Longrightarrow> \<not> is_space c"
  unfolding is_trail_def is_space_def by (auto simp: word_le_nat_alt)

lemma take_length_takeWhile: "take (length (takeWhile P xs)) xs = takeWhile P xs"
  by (induction xs) auto

lemma match_here_total: "s \<noteq> [] \<Longrightarrow> \<exists>n. match_here s = Some n"
  by (cases s) (auto simp: match_here_def Let_def)

lemma match_here_Nil: "match_here [] = None"
  by (simp add: match_here_def)

lemma re_exec_Nil: "re_exec [] = None"
  by (simp add: re_exec.simps [of "[]"] match_here_Nil)

lemma re_exec_head: "match_here s = Some n \<Longrightarrow> re_exec s = Some (0, n)"
  by (simp add: re_exec.simps [of s])

lemma match_here_class:
  assumes "match_here s = Some n"
  shows "list_ex is_space (take n s) = list_all is_space (take n s)"
proof -
  consider (sp) "0 < length (takeWhile is_space s)" "n = length (takeWhile is_space s)"
    | (wd) "0 < length (takeWhile is_word s)" "n = length (takeWhile is_word s)"
    | (ot) c cs where "s = c # cs" "\<not> is_word c" "\<not> is_space c" "n = code_point_len s"
    using assms by (auto simp: match_here_def Let_def split: if_splits list.splits)
  then show ?thesis
  proof cases
    case sp
    have "\<forall>c\<in>set (takeWhile is_space s). is_space c"
      by (meson set_takeWhileD)
    moreover have "takeWhile is_space s \<noteq> []" using sp by auto
    moreover have "take n s = takeWhile is_space s"
      using sp by (simp add: take_length_takeWhile)
    ultimately show ?thesis
      by (cases "takeWhile is_space s") (auto simp: list_ex_iff list_all_iff)
  next
    case wd
    have "\<forall>c\<in>set (takeWhile is_word s). \<not> is_space c"
      by (meson set_takeWhileD word_not_space)
    moreover have "takeWhile is_word s \<noteq> []" using wd by auto
    moreover have "take n s = takeWhile is_word s"
      using wd by (simp add: take_length_takeWhile)
    ultimately show ?thesis
      by (cases "takeWhile is_word s") (auto simp: list_ex_iff list_all_iff)
  next
    case ot
    then show ?thesis
      by (cases cs) (auto simp: trail_not_space)
  qed
qed

lemma tok_loop_Nil: "tok_loop [] i = []"
  by (simp add: tok_loop.simps [of "[]"] re_exec_Nil)

lemma tok_loop_step:
  assumes "match_here s = Some n"
  shows "tok_loop s i =
           \<lparr>tok_text = take n s, tok_start = i, tok_end = i + n,
            isSpace = list_ex is_space (take n s)\<rparr> # tok_loop (drop n s) (i + n)"
  using match_here_bounds [OF assms]
  by (simp add: tok_loop.simps [of s] re_exec_head [OF assms] Let_def min_absorb2)

lemma tok_loop_props:
  "concat (map tok_text (tok_loop s i)) = s
   \<and> (\<forall>t\<in>set (tok_loop s i). tok_text t \<noteq> [] \<and> isSpace t = list_all is_space (tok_text t))
   \<and> tiles_from i (tok_loop s i)"
proof (induction "length s" arbitrary: s i rule: less_induct)
  case less
  show ?case
  proof (cases "s = []")
    case True
    then show ?thesis by (simp add: tok_loop_Nil)
  next
    case False
    then obtain n where n: "match_here s = Some n"
      using match_here_total by blast
    note b = match_here_bounds [OF n]
    then have "length (drop n s) < length s" using False by simp
    note IH = less [OF this, of "i + n"]
    show ?thesis
      using IH b match_here_class [OF n]
      by (simp add: tok_loop_step [OF n] min_absorb2) auto
  qed
qed

lemma tiles_from_end:
  "tiles_from i ts \<Longrightarrow> t \<in> set ts \<Longrightarrow> tok_end t = tok_start t + length (tok_text t)"
  by (induction ts arbitrary: i) auto

lemma tiles_from_nth:
  "tiles_from i ts \<Longrightarrow> k < length ts \<Longrightarrow>
     tok_start (ts ! k) = i + length (concat (map tok_text (take k ts)))"
proof (induction ts arbitrary: i k)
  case Nil
  then show ?case by simp
next
  case (Cons t ts)
  then show ?case by (cases k) auto
qed

lemma tiles_from_hd: "tiles_from i ts \<Longrightarrow> ts \<noteq> [] \<Longrightarrow> tok_start (hd ts) = i"
  by (cases ts) auto

lemma tiles_from_last:
  "tiles_from i ts \<Longrightarrow> ts \<noteq> [] \<Longrightarrow> tok_end (last ts) = i + length (concat (map tok_text ts))"
proof (induction ts arbitrary: i)
  case Nil
  then show ?case by simp
next
  case (Cons t ts)
  then show ?case by (cases "ts = []") auto
qed

lemma tiles_from_next:
  "tiles_from i ts \<Longrightarrow> Suc k < length ts \<Longrightarrow> tok_start (ts ! Suc k) = tok_end (ts ! k)"
proof (induction ts arbitrary: i k)
  case Nil
  then show ?case by simp
next
  case (Cons t ts)
  show ?case
  proof (cases k)
    case 0
    with Cons.prems tiles_from_hd [of "tok_end t" ts] show ?thesis
      by (cases ts) auto
  next
    case (Suc k')
    from Cons.prems have "tiles_from (tok_end t) ts" "Suc k' < length ts"
      using Suc by auto
    from Cons.IH [OF this] Suc show ?thesis by simp
  qed
qed

text \<open>
  C1. For every input string the tokens, concatenated, give back the input; no token is
  empty; the first token starts at 0, each token starts where its predecessor ends and ends
  its own length later, and the last token ends at the length of the input (token \<open>k\<close>
  starts where the text of the tokens before it ends), so the offsets tile the string with
  neither gap nor overlap; and \<open>isSpace\<close> holds exactly for the tokens made of whitespace
  only. The token list is the value of a total function, hence finite.
\<close>

theorem tokenizeWithOffsets_tiling:
  "(let toks = tokenizeWithOffsets str in
      concat (map tok_text toks) = str
    \<and> (\<forall>t\<in>set toks. tok_text t \<noteq> [])
    \<and> (toks \<noteq> [] \<longrightarrow> tok_start (hd toks) = 0 \<and> tok_end (last toks) = length str)
    \<and> (\<forall>k. Suc k < length toks \<longrightarrow> tok_start (toks ! Suc k) = tok_end (toks ! k))
    \<and> (\<forall>k<length toks.
          tok_start (toks ! k) = length (concat (map tok_text (take k toks)))
        \<and> tok_end (toks ! k) = tok_start (toks ! k) + length (tok_text (toks ! k)))
    \<and> (\<forall>t\<in>set toks. isSpace t \<longleftrightarrow> (\<forall>c\<in>set (tok_text t). is_space c)))"
proof -
  define toks where "toks = tokenizeWithOffsets str"
  have p: "concat (map tok_text toks) = str"
    "\<forall>t\<in>set toks. tok_text t \<noteq> [] \<and> isSpace t = list_all is_space (tok_text t)"
    "tiles_from 0 toks"
    using tok_loop_props [of str 0] by (simp_all add: toks_def tokenizeWithOffsets_def)
  have a: "\<forall>k<length toks.
          tok_start (toks ! k) = length (concat (map tok_text (take k toks)))
        \<and> tok_end (toks ! k) = tok_start (toks ! k) + length (tok_text (toks ! k))"
    using tiles_from_nth [OF p(3)] tiles_from_end [OF p(3)] by simp
  have b: "toks \<noteq> [] \<longrightarrow> tok_start (hd toks) = 0 \<and> tok_end (last toks) = length str"
    using tiles_from_hd [OF p(3)] tiles_from_last [OF p(3)] p(1) by simp
  have c: "\<forall>k. Suc k < length toks \<longrightarrow> tok_start (toks ! Suc k) = tok_end (toks ! k)"
    using tiles_from_next [OF p(3)] by simp
  from p a b c show ?thesis
    unfolding Let_def toks_def [symmetric] by (simp add: list_all_iff)
qed

theorem tokenizeWithOffsets_tiling_witness:
  "tokenizeWithOffsets (lit ''a b'') =
     [\<lparr>tok_text = lit ''a'', tok_start = 0, tok_end = 1, isSpace = False\<rparr>,
      \<lparr>tok_text = lit '' '', tok_start = 1, tok_end = 2, isSpace = True\<rparr>,
      \<lparr>tok_text = lit ''b'', tok_start = 2, tok_end = 3, isSpace = False\<rparr>]
   \<and> concat (map tok_text (tokenizeWithOffsets (lit ''a b''))) = lit ''a b''"
proof -
  have e: "tokenizeWithOffsets (lit ''a b'') =
     [\<lparr>tok_text = lit ''a'', tok_start = 0, tok_end = 1, isSpace = False\<rparr>,
      \<lparr>tok_text = lit '' '', tok_start = 1, tok_end = 2, isSpace = True\<rparr>,
      \<lparr>tok_text = lit ''b'', tok_start = 2, tok_end = 3, isSpace = False\<rparr>]"
    by code_simp
  from tokenizeWithOffsets_tiling [of "lit ''a b''"] have
    "concat (map tok_text (tokenizeWithOffsets (lit ''a b''))) = lit ''a b''"
    by (simp add: Let_def)
  with e show ?thesis by simp
qed

section \<open>Token range of a span\<close>

text \<open>
  C2. \<open>spanToTokenRange\<close> is to return \<open>[i0, i1]\<close> with \<open>i0 \<le> i1\<close> and to fail (\<open>null\<close>)
  whenever no non-space token intersects the span. On the tokens of \<open>"a   b"\<close> and the span
  \<open>[2, 3)\<close>, which lies inside the run of spaces, no non-space token intersects the span, yet
  the function returns \<open>[2, 0]\<close>: \<open>i1\<close> is the word before the gap and \<open>i0\<close> the word after
  it, and the final test only asks that neither is \<open>null\<close>.
\<close>

theorem spanToTokenRange_gap:
  "tokens gap_state =
     [\<lparr>tok_text = lit ''a'', tok_start = 0, tok_end = 1, isSpace = False\<rparr>,
      \<lparr>tok_text = lit ''   '', tok_start = 1, tok_end = 4, isSpace = True\<rparr>,
      \<lparr>tok_text = lit ''b'', tok_start = 4, tok_end = 5, isSpace = False\<rparr>]
   \<and> \<not> list_ex (\<lambda>t. \<not> isSpace t \<and> 2 < int (tok_end t) \<and> int (tok_start t) < 3)
         (tokens gap_state)
   \<and> spanToTokenRange gap_state \<lparr>span_start = 2, span_end = 3\<rparr> = Some (2, 0)"
  by code_simp

lemma tiles_ordered:
  "tiles_from i ts \<Longrightarrow> \<forall>t\<in>set ts. tok_text t \<noteq> [] \<Longrightarrow>
     ordered_tokens ts \<and> (\<forall>u\<in>set ts. i \<le> tok_start u)"
proof (induction ts arbitrary: i)
  case Nil
  then show ?case by simp
next
  case (Cons t ts)
  from Cons.prems have "tiles_from (tok_end t) ts" "\<forall>t\<in>set ts. tok_text t \<noteq> []" by auto
  from Cons.IH [OF this] have "ordered_tokens ts \<and> (\<forall>u\<in>set ts. tok_end t \<le> tok_start u)" .
  with Cons.prems show ?case by auto
qed

lemma tokenize_ordered: "ordered_tokens (tokenizeWithOffsets str)"
  using tok_loop_props [of str 0] tiles_ordered [of 0 "tok_loop str 0"]
  by (simp add: tokenizeWithOffsets_def)

lemma ordered_nth:
  "ordered_tokens ts \<Longrightarrow> j < k \<Longrightarrow> k < length ts \<Longrightarrow> tok_end (ts ! j) \<le> tok_start (ts ! k)"
proof (induction ts arbitrary: j k)
  case Nil
  then show ?case by simp
next
  case (Cons t ts)
  show ?case
  proof (cases j)
    case 0
    with Cons.prems show ?thesis by (cases k) auto
  next
    case (Suc j')
    with Cons.prems obtain k' where "k = Suc k'" by (cases k) auto
    with Suc Cons show ?thesis by simp
  qed
qed

lemma ordered_pos: "ordered_tokens ts \<Longrightarrow> k < length ts \<Longrightarrow> tok_start (ts ! k) < tok_end (ts ! k)"
  by (induction ts arbitrary: k) (auto simp: nth_Cons split: nat.splits)

lemma span_loop_i0_kept: "fst (span_loop st en ts i (Some x) i1) = Some x"
  by (induction ts arbitrary: i i1) (auto simp: Let_def)

lemma span_loop_i1_kept:
  "\<forall>t\<in>set ts. \<not> isSpace t \<longrightarrow> en \<le> int (tok_start t) \<Longrightarrow>
     snd (span_loop st en ts i i0 i1) = i1"
  by (induction ts arbitrary: i i0) (auto simp: Let_def)

lemma span_loop_first:
  assumes "ordered_tokens ts" "\<exists>t\<in>set ts. meets st en t"
  shows "\<exists>a<length ts. fst (span_loop st en ts i None i1) = Some (i + a)
           \<and> \<not> isSpace (ts ! a) \<and> st < int (tok_end (ts ! a))
           \<and> (\<forall>j<a. \<not> isSpace (ts ! j) \<longrightarrow> int (tok_end (ts ! j)) \<le> st)"
  using assms
proof (induction ts arbitrary: i i1)
  case Nil
  then show ?case by simp
next
  case (Cons t ts)
  show ?case
  proof (cases "\<not> isSpace t \<and> st < int (tok_end t)")
    case True
    then have "fst (span_loop st en (t # ts) i None i1) = Some i"
      by (simp add: Let_def span_loop_i0_kept)
    with True show ?thesis by (intro exI [of _ 0]) simp
  next
    case False
    then have nm: "\<not> meets st en t" by (auto simp: meets_def)
    with Cons.prems obtain u where u: "u \<in> set ts" "meets st en u" by auto
    have nb: "\<not> isSpace t \<Longrightarrow> int (tok_start t) < en"
      using Cons.prems(1) u by (fastforce simp: meets_def)
    define i1' where "i1' = (if isSpace t then i1 else Some i)"
    have eq: "span_loop st en (t # ts) i None i1 = span_loop st en ts (Suc i) None i1'"
      using False nb by (auto simp: Let_def i1'_def)
    from Cons.prems(1) u have "ordered_tokens ts" "\<exists>t\<in>set ts. meets st en t" by auto
    from Cons.IH [OF this, of "Suc i" i1'] obtain a where a: "a < length ts"
      "fst (span_loop st en ts (Suc i) None i1') = Some (Suc i + a)"
      "\<not> isSpace (ts ! a)" "st < int (tok_end (ts ! a))"
      "\<forall>j<a. \<not> isSpace (ts ! j) \<longrightarrow> int (tok_end (ts ! j)) \<le> st"
      by blast
    have "\<forall>j<Suc a. \<not> isSpace ((t # ts) ! j) \<longrightarrow> int (tok_end ((t # ts) ! j)) \<le> st"
      using a(5) False by (auto simp: nth_Cons split: nat.splits)
    with a eq show ?thesis by (intro exI [of _ "Suc a"]) simp
  qed
qed

lemma span_loop_last:
  assumes "ordered_tokens ts" "\<exists>t\<in>set ts. meets st en t"
  shows "\<exists>b<length ts. snd (span_loop st en ts i i0 i1) = Some (i + b)
           \<and> \<not> isSpace (ts ! b) \<and> int (tok_start (ts ! b)) < en
           \<and> (\<forall>j<length ts. b < j \<and> \<not> isSpace (ts ! j) \<longrightarrow> en \<le> int (tok_start (ts ! j)))"
  using assms
proof (induction ts arbitrary: i i0 i1)
  case Nil
  then show ?case by simp
next
  case (Cons t ts)
  from Cons.prems(1) have ord: "ordered_tokens ts" by simp
  show ?case
  proof (cases "\<exists>u\<in>set ts. meets st en u")
    case True
    have nb: "\<not> isSpace t \<Longrightarrow> int (tok_start t) < en"
      using Cons.prems(1) True by (fastforce simp: meets_def)
    define i0' where "i0' = (if \<not> isSpace t \<and> i0 = None \<and> st < int (tok_end t) then Some i else i0)"
    define i1' where "i1' = (if isSpace t then i1 else Some i)"
    have eq: "span_loop st en (t # ts) i i0 i1 = span_loop st en ts (Suc i) i0' i1'"
      using nb by (auto simp: Let_def i0'_def i1'_def)
    from Cons.IH [OF ord True, of "Suc i" i0' i1'] obtain b where b: "b < length ts"
      "snd (span_loop st en ts (Suc i) i0' i1') = Some (Suc i + b)"
      "\<not> isSpace (ts ! b)" "int (tok_start (ts ! b)) < en"
      "\<forall>j<length ts. b < j \<and> \<not> isSpace (ts ! j) \<longrightarrow> en \<le> int (tok_start (ts ! j))"
      by blast
    have "\<forall>j<length (t # ts). Suc b < j \<and> \<not> isSpace ((t # ts) ! j)
            \<longrightarrow> en \<le> int (tok_start ((t # ts) ! j))"
      using b(5) by (auto simp: nth_Cons split: nat.splits)
    with b eq show ?thesis by (intro exI [of _ "Suc b"]) simp
  next
    case False
    with Cons.prems(2) have m: "meets st en t" by auto
    have later: "\<forall>u\<in>set ts. \<not> isSpace u \<longrightarrow> en \<le> int (tok_start u)"
    proof (intro ballI impI)
      fix u assume u: "u \<in> set ts" "\<not> isSpace u"
      with Cons.prems(1) have "tok_end t \<le> tok_start u" by simp
      moreover from ord u(1) have "tok_start u < tok_end u"
        by (metis in_set_conv_nth ordered_pos)
      ultimately have "st < int (tok_end u)" using m by (simp add: meets_def)
      with False u show "en \<le> int (tok_start u)" by (auto simp: meets_def)
    qed
    define i0' where "i0' = (if i0 = None \<and> st < int (tok_end t) then Some i else i0)"
    have "snd (span_loop st en (t # ts) i i0 i1) = snd (span_loop st en ts (Suc i) i0' (Some i))"
      using m by (simp add: Let_def i0'_def meets_def)
    also have "\<dots> = Some i" by (rule span_loop_i1_kept [OF later])
    finally have r: "snd (span_loop st en (t # ts) i i0 i1) = Some i" .
    have "\<forall>j<length (t # ts). 0 < j \<and> \<not> isSpace ((t # ts) ! j)
            \<longrightarrow> en \<le> int (tok_start ((t # ts) ! j))"
      using later by (auto simp: nth_Cons split: nat.splits)
    with r m show ?thesis by (intro exI [of _ 0]) (simp add: meets_def)
  qed
qed

lemma found_at_Cons: "found_at P ts (Suc i) x \<Longrightarrow> found_at P (t # ts) i x"
  unfolding found_at_def by (auto intro: exI [of _ "Suc _"])

lemma found_at_head: "P t \<Longrightarrow> found_at P (t # ts) i (Some i)"
  unfolding found_at_def by (auto intro: exI [of _ 0])

lemma span_loop_fst:
  "fst (span_loop st en ts i i0 i1) = i0
   \<or> found_at (\<lambda>t. \<not> isSpace t \<and> st < int (tok_end t)) ts i (fst (span_loop st en ts i i0 i1))"
proof (induction ts arbitrary: i i0 i1)
  case Nil
  then show ?case by simp
next
  case (Cons t ts)
  show ?case
  proof (cases "isSpace t")
    case True
    with Cons.IH [of "Suc i" i0 i1] show ?thesis by (auto intro: found_at_Cons)
  next
    case False
    define i0' where "i0' = (if i0 = None \<and> st < int (tok_end t) then Some i else i0)"
    define i1' where "i1' = (if int (tok_start t) < en then Some i else i1)"
    have h: "i0' = i0 \<or> found_at (\<lambda>t. \<not> isSpace t \<and> st < int (tok_end t)) (t # ts) i i0'"
      using False by (auto simp: i0'_def intro: found_at_head)
    show ?thesis
    proof (cases "en \<le> int (tok_start t)")
      case True
      then have "fst (span_loop st en (t # ts) i i0 i1) = i0'"
        using False by (simp add: Let_def i0'_def)
      with h show ?thesis by auto
    next
      case nb: False
      then have eq: "span_loop st en (t # ts) i i0 i1 = span_loop st en ts (Suc i) i0' i1'"
        using False by (simp add: Let_def i0'_def i1'_def)
      from Cons.IH [of "Suc i" i0' i1'] h show ?thesis
        unfolding eq by (auto intro: found_at_Cons)
    qed
  qed
qed

lemma span_loop_snd:
  "snd (span_loop st en ts i i0 i1) = i1
   \<or> found_at (\<lambda>t. \<not> isSpace t \<and> int (tok_start t) < en) ts i (snd (span_loop st en ts i i0 i1))"
proof (induction ts arbitrary: i i0 i1)
  case Nil
  then show ?case by simp
next
  case (Cons t ts)
  show ?case
  proof (cases "isSpace t")
    case True
    with Cons.IH [of "Suc i" i0 i1] show ?thesis by (auto intro: found_at_Cons)
  next
    case False
    define i0' where "i0' = (if i0 = None \<and> st < int (tok_end t) then Some i else i0)"
    define i1' where "i1' = (if int (tok_start t) < en then Some i else i1)"
    have h: "i1' = i1 \<or> found_at (\<lambda>t. \<not> isSpace t \<and> int (tok_start t) < en) (t # ts) i i1'"
      using False by (auto simp: i1'_def intro: found_at_head)
    show ?thesis
    proof (cases "en \<le> int (tok_start t)")
      case True
      then have "snd (span_loop st en (t # ts) i i0 i1) = i1'"
        using False by (simp add: Let_def i1'_def)
      with h show ?thesis by auto
    next
      case nb: False
      then have eq: "span_loop st en (t # ts) i i0 i1 = span_loop st en ts (Suc i) i0' i1'"
        using False by (simp add: Let_def i0'_def i1'_def)
      from Cons.IH [of "Suc i" i0' i1'] h show ?thesis
        unfolding eq by (auto intro: found_at_Cons)
    qed
  qed
qed

lemma ordered_start_mono:
  assumes "ordered_tokens ts" "a \<le> b" "b < length ts"
  shows "tok_start (ts ! a) \<le> tok_start (ts ! b)"
proof (cases "a = b")
  case True
  then show ?thesis by simp
next
  case False
  with assms have "tok_end (ts ! a) \<le> tok_start (ts ! b)" by (intro ordered_nth) auto
  moreover from assms have "tok_start (ts ! a) < tok_end (ts ! a)" by (intro ordered_pos) auto
  ultimately show ?thesis by simp
qed

lemma ordered_end_mono:
  assumes "ordered_tokens ts" "a \<le> b" "b < length ts"
  shows "tok_end (ts ! a) \<le> tok_end (ts ! b)"
proof (cases "a = b")
  case True
  then show ?thesis by simp
next
  case False
  with assms have "tok_end (ts ! a) \<le> tok_start (ts ! b)" by (intro ordered_nth) auto
  moreover from assms have "tok_start (ts ! b) < tok_end (ts ! b)" by (intro ordered_pos) auto
  ultimately show ?thesis by simp
qed

text \<open>
  On the tokens of a text, \<open>spanToTokenRange\<close> is decided by whether a non-space token
  intersects the span. If one does, the result is \<open>[i0, i1]\<close> with \<open>i0\<close> the first non-space
  token that ends after the span's start, \<open>i1\<close> the last non-space token that starts before
  the span's end, \<open>i0 \<le> i1\<close>, and every token from \<open>i0\<close> to \<open>i1\<close> intersects the span. If none
  does, the result is \<open>null\<close> or a pair with \<open>i1 < i0\<close>.
\<close>

theorem spanToTokenRange_ordered:
  assumes "tokens s = tokenizeWithOffsets str"
  shows
    "((\<exists>t\<in>set (tokens s). meets (span_start sp) (span_end sp) t) \<longrightarrow>
        (\<exists>i0 i1. spanToTokenRange s sp = Some (i0, i1)
           \<and> i0 \<le> i1 \<and> i1 < length (tokens s)
           \<and> \<not> isSpace (tokens s ! i0) \<and> span_start sp < int (tok_end (tokens s ! i0))
           \<and> (\<forall>j<i0. \<not> isSpace (tokens s ! j) \<longrightarrow> int (tok_end (tokens s ! j)) \<le> span_start sp)
           \<and> \<not> isSpace (tokens s ! i1) \<and> int (tok_start (tokens s ! i1)) < span_end sp
           \<and> (\<forall>j<length (tokens s). i1 < j \<and> \<not> isSpace (tokens s ! j)
                 \<longrightarrow> span_end sp \<le> int (tok_start (tokens s ! j)))
           \<and> (\<forall>j. i0 \<le> j \<and> j \<le> i1 \<longrightarrow>
                 span_start sp < int (tok_end (tokens s ! j))
               \<and> int (tok_start (tokens s ! j)) < span_end sp)))
   \<and> (\<not> (\<exists>t\<in>set (tokens s). meets (span_start sp) (span_end sp) t) \<longrightarrow>
        spanToTokenRange s sp = None
      \<or> (\<exists>i0 i1. spanToTokenRange s sp = Some (i0, i1) \<and> i1 < i0))"
proof (intro conjI impI)
  let ?ts = "tokens s" and ?st = "span_start sp" and ?en = "span_end sp"
  have ord: "ordered_tokens ?ts" using assms tokenize_ordered by simp
  {
    assume ex: "\<exists>t\<in>set ?ts. meets ?st ?en t"
    then obtain k where k: "k < length ?ts" "meets ?st ?en (?ts ! k)"
      by (auto simp: in_set_conv_nth)
    from span_loop_first [OF ord ex, of 0 None] obtain a where a: "a < length ?ts"
      "fst (span_loop ?st ?en ?ts 0 None None) = Some a"
      "\<not> isSpace (?ts ! a)" "?st < int (tok_end (?ts ! a))"
      "\<forall>j<a. \<not> isSpace (?ts ! j) \<longrightarrow> int (tok_end (?ts ! j)) \<le> ?st"
      by auto
    from span_loop_last [OF ord ex, of 0 None None] obtain b where b: "b < length ?ts"
      "snd (span_loop ?st ?en ?ts 0 None None) = Some b"
      "\<not> isSpace (?ts ! b)" "int (tok_start (?ts ! b)) < ?en"
      "\<forall>j<length ?ts. b < j \<and> \<not> isSpace (?ts ! j) \<longrightarrow> ?en \<le> int (tok_start (?ts ! j))"
      by auto
    have r: "spanToTokenRange s sp = Some (a, b)"
      using a(2) b(2) by (simp add: spanToTokenRange_def split_beta split: prod.splits)
    have ak: "a \<le> k"
    proof (rule ccontr)
      assume "\<not> a \<le> k"
      then have "k < a" by simp
      with a(5) k(2) show False by (auto simp: meets_def)
    qed
    have kb: "k \<le> b"
    proof (rule ccontr)
      assume "\<not> k \<le> b"
      then have "b < k" by simp
      with b(5) k show False by (auto simp: meets_def)
    qed
    have mid: "?st < int (tok_end (?ts ! j)) \<and> int (tok_start (?ts ! j)) < ?en"
      if "a \<le> j" "j \<le> b" for j
      using ordered_end_mono [OF ord that(1)] ordered_start_mono [OF ord that(2) b(1)]
        that b(1) a(4) b(4) by fastforce
    show "\<exists>i0 i1. spanToTokenRange s sp = Some (i0, i1)
           \<and> i0 \<le> i1 \<and> i1 < length ?ts
           \<and> \<not> isSpace (?ts ! i0) \<and> ?st < int (tok_end (?ts ! i0))
           \<and> (\<forall>j<i0. \<not> isSpace (?ts ! j) \<longrightarrow> int (tok_end (?ts ! j)) \<le> ?st)
           \<and> \<not> isSpace (?ts ! i1) \<and> int (tok_start (?ts ! i1)) < ?en
           \<and> (\<forall>j<length ?ts. i1 < j \<and> \<not> isSpace (?ts ! j) \<longrightarrow> ?en \<le> int (tok_start (?ts ! j)))
           \<and> (\<forall>j. i0 \<le> j \<and> j \<le> i1 \<longrightarrow>
                 ?st < int (tok_end (?ts ! j)) \<and> int (tok_start (?ts ! j)) < ?en)"
      using r ak kb a b mid by (intro exI [of _ a] exI [of _ b]) auto
  }
  {
    assume no: "\<not> (\<exists>t\<in>set ?ts. meets ?st ?en t)"
    show "spanToTokenRange s sp = None \<or> (\<exists>i0 i1. spanToTokenRange s sp = Some (i0, i1) \<and> i1 < i0)"
    proof (cases "spanToTokenRange s sp")
      case None
      then show ?thesis by simp
    next
      case (Some p)
      then obtain a b where p: "span_loop ?st ?en ?ts 0 None None = (Some a, Some b)"
        by (auto simp: spanToTokenRange_def split: prod.splits option.splits)
      with Some have r: "spanToTokenRange s sp = Some (a, b)" by (simp add: spanToTokenRange_def)
      from span_loop_fst [of ?st ?en ?ts 0 None None] p have
        a: "a < length ?ts" "\<not> isSpace (?ts ! a)" "?st < int (tok_end (?ts ! a))"
        by (auto simp: found_at_def)
      from span_loop_snd [of ?st ?en ?ts 0 None None] p have
        b: "b < length ?ts" "\<not> isSpace (?ts ! b)" "int (tok_start (?ts ! b)) < ?en"
        by (auto simp: found_at_def)
      have "b < a"
      proof (rule ccontr)
        assume "\<not> b < a"
        then have "a \<le> b" by simp
        from ordered_start_mono [OF ord this b(1)] b(3) have "int (tok_start (?ts ! a)) < ?en"
          by simp
        with a have "meets ?st ?en (?ts ! a)" by (simp add: meets_def)
        with no a(1) show False using nth_mem by blast
      qed
      with r show ?thesis by blast
    qed
  }
qed

theorem spanToTokenRange_ordered_witness:
  "tokens hello_state = tokenizeWithOffsets (lit ''hello world foo'')
   \<and> list_ex (meets 6 10) (tokens hello_state)
   \<and> spanToTokenRange hello_state \<lparr>span_start = 6, span_end = 10\<rparr> = Some (2, 2)"
proof -
  have a: "tokens hello_state = tokenizeWithOffsets (lit ''hello world foo'')"
    by (simp add: hello_state_def init_state_def)
  have b: "list_ex (meets 6 10) (tokens hello_state)
           \<and> spanToTokenRange hello_state \<lparr>span_start = 6, span_end = 10\<rparr> = Some (2, 2)"
    by code_simp
  note t = spanToTokenRange_ordered [OF a, of "\<lparr>span_start = 6, span_end = 10\<rparr>"]
  from t a b show ?thesis by blast
qed

section \<open>Entity ids\<close>

lemma digits_nonempty: "digits n \<noteq> []"
  by (subst digits.simps) simp

lemma digit_inj:
  "a < 10 \<Longrightarrow> b < 10 \<Longrightarrow> (of_nat (48 + a) :: 16 word) = of_nat (48 + b) \<Longrightarrow> a = b"
  by (simp add: word_of_nat_eq_iff take_bit_eq_mod)

lemma digits_inj: "digits m = digits n \<Longrightarrow> m = n"
proof (induction m arbitrary: n rule: digits.induct)
  case (1 m)
  show ?case
  proof (cases "m < 10")
    case True
    show ?thesis
    proof (cases "n < 10")
      case nt: True
      with True "1.prems" show ?thesis
        by (simp add: digits.simps [of m] digits.simps [of n] digit_inj)
    next
      case False
      with True "1.prems" digits_nonempty [of "n div 10"] show ?thesis
        by (simp add: digits.simps [of m] digits.simps [of n])
    qed
  next
    case False
    show ?thesis
    proof (cases "n < 10")
      case True
      with False "1.prems" digits_nonempty [of "m div 10"] show ?thesis
        by (simp add: digits.simps [of m] digits.simps [of n])
    next
      case nf: False
      with False "1.prems" have
        a: "digits (m div 10) = digits (n div 10)"
        and b: "(of_nat (48 + m mod 10) :: 16 word) = of_nat (48 + n mod 10)"
        by (simp_all add: digits.simps [of m] digits.simps [of n])
      from "1.IH" [OF False a] have "m div 10 = n div 10" .
      moreover from b have "m mod 10 = n mod 10" by (intro digit_inj) simp_all
      ultimately show ?thesis by (metis div_mult_mod_eq)
    qed
  qed
qed

lemma map_id_update_first:
  "(\<And>a. ent_id (f a) = ent_id a) \<Longrightarrow> map ent_id (update_first P f xs) = map ent_id xs"
  by (induction xs) auto

lemma length_update_first: "length (update_first P f xs) = length xs"
  by (induction xs) auto

lemma confirm_sequential:
  assumes "sequential_ids s" "confirmSaveAnnotation N form s = Inr s'"
  shows "sequential_ids s'"
  using assms
  by (auto simp: confirmSaveAnnotation_def sequential_ids_def Let_def map_id_update_first
      length_update_first split: option.splits ui_mode.splits)

lemma prepare_sequential: "sequential_ids s \<Longrightarrow> sequential_ids (prepare x s)"
  by (cases x) (simp_all add: sequential_ids_def openEntityModal_def)

lemma step_sequential:
  assumes "sequential_ids s" "\<not> is_delete x"
  shows "sequential_ids (entity_step N x s)"
proof (cases "handler N x (prepare x s)")
  case (Inl e)
  with prepare_sequential [OF assms(1), of x] show ?thesis by (simp add: entity_step_def)
next
  case (Inr s')
  from assms(2) obtain form where "handler N x (prepare x s) = confirmSaveAnnotation N form (prepare x s)"
    by (cases x) auto
  with Inr prepare_sequential [OF assms(1), of x] have "sequential_ids s'"
    by (auto dest: confirm_sequential)
  with Inr show ?thesis by (simp add: entity_step_def)
qed

lemma run_sequential:
  "sequential_ids s \<Longrightarrow> \<forall>x\<in>set ops. \<not> is_delete x \<Longrightarrow> sequential_ids (run_ops N ops s)"
proof (induction ops arbitrary: s)
  case Nil
  then show ?case by simp
next
  case (Cons x xs)
  from Cons.prems have "sequential_ids (entity_step N x s)" by (auto intro: step_sequential)
  with Cons show ?case by simp
qed

lemma distinct_T: "distinct (map (\<lambda>k. (0x54 :: 16 word) # digits k) xs) = distinct xs"
  by (simp add: distinct_map inj_on_def) (metis digits_inj)

text \<open>
  C3. Entity ids are to be unique among the entities present and never reused. The id of a
  new entity is \<open>T\<close> followed by the number of entities present plus one; the code keeps no
  counter. Creating two entities, deleting \<open>T1\<close> and creating a third gives two entities with
  the id \<open>T2\<close>, and one delete of \<open>T2\<close> then removes both (edit, delete and \<open>entityById\<close> go
  by the id); creating, deleting \<open>T1\<close> and creating again assigns \<open>T1\<close> a second time.
\<close>

theorem entity_ids_reused:
  "map ent_id (annotations (run_ops no_numbers ops1 session0)) = [lit ''T2'', lit ''T2'']
   \<and> \<not> distinct (map ent_id (annotations (run_ops no_numbers ops1 session0)))
   \<and> annotations (run_ops no_numbers (ops1 @ [DeleteEntity (lit ''T2'')]) session0) = []
   \<and> map ent_id (annotations (run_ops no_numbers ops2 session0)) = [lit ''T1'']"
  by code_simp

text \<open>
  Every create that adds an entity gives it the id \<open>T<n+1>\<close>, \<open>n\<close> the number of entities
  present; it adds none when the class selector or the selection is missing or a selected
  index has no token element.
\<close>

lemma create_assigns_next_id:
  "annotations (entity_step N (CreateEntity a b form) s) = annotations s
   \<or> (\<exists>e. annotations (entity_step N (CreateEntity a b form) s) = annotations s @ [e]
          \<and> ent_id e = 0x54 # digits (length (annotations s) + 1))"
  by (auto simp: entity_step_def confirmSaveAnnotation_def openEntityModal_def Let_def
      split: option.splits sum.splits)

text \<open>
  In a session that starts with no entities and contains no delete, the entities present
  carry the ids \<open>T1\<close>, \<open>T2\<close>, ... in creation order, and these are pairwise distinct.
\<close>

theorem entity_ids_sequential:
  assumes "annotations s = []" and "\<forall>x\<in>set ops. \<not> is_delete x"
  shows "map ent_id (annotations (run_ops N ops s)) =
           map (\<lambda>k. 0x54 # digits k) [1..<Suc (length (annotations (run_ops N ops s)))]
         \<and> distinct (map ent_id (annotations (run_ops N ops s)))"
proof -
  have "sequential_ids s" using assms(1) by (simp add: sequential_ids_def)
  from run_sequential [OF this assms(2)] have
    e: "map ent_id (annotations (run_ops N ops s)) =
          map (\<lambda>k. 0x54 # digits k) [1..<Suc (length (annotations (run_ops N ops s)))]"
    by (simp add: sequential_ids_def)
  have "distinct (map (\<lambda>k. (0x54 :: 16 word) # digits k)
          [1..<Suc (length (annotations (run_ops N ops s)))])"
    by (simp only: distinct_T distinct_upt)
  with e show ?thesis by simp
qed

lemma session0_run:
  "map ent_id (annotations (run_ops no_numbers ops0 session0)) = [lit ''T1'', lit ''T2'']"
  by code_simp

theorem entity_ids_sequential_witness:
  "annotations session0 = []
   \<and> list_all (\<lambda>x. \<not> is_delete x) ops0
   \<and> map ent_id (annotations (run_ops no_numbers ops0 session0)) = [lit ''T1'', lit ''T2'']
   \<and> distinct (map ent_id (annotations (run_ops no_numbers ops0 session0)))"
proof -
  have a: "annotations session0 = []" by (simp add: session0_def init_state_def)
  have b: "\<forall>x\<in>set ops0. \<not> is_delete x" by (simp add: ops0_def)
  have c: "list_all (\<lambda>x. \<not> is_delete x) ops0" by (simp add: ops0_def)
  from entity_ids_sequential [OF a b, of no_numbers]
  have d: "distinct (map ent_id (annotations (run_ops no_numbers ops0 session0)))"
    by (rule conjunct2)
  from a c session0_run d show ?thesis by blast
qed

section \<open>Deleting an entity\<close>

text \<open>
  C4. Deleting entity \<open>i\<close> (the modal opened on its chip, then the delete button) keeps
  exactly the entities with another id and exactly the relations whose subject and object
  both differ from \<open>i\<close>: afterwards no entity has the id and no relation refers to it. This
  holds from every state.
\<close>

theorem deleteAnnotation_cascade:
  "(let s' = deleteAnnotation (openEntityModal ModeEdit (Some i) s) in
      annotations s' = filter (\<lambda>a. ent_id a \<noteq> i) (annotations s)
    \<and> relations s' = filter (\<lambda>r. subject r \<noteq> Some i \<and> object r \<noteq> Some i) (relations s)
    \<and> (\<forall>a\<in>set (annotations s'). ent_id a \<noteq> i)
    \<and> (\<forall>r\<in>set (relations s'). subject r \<noteq> Some i \<and> object r \<noteq> Some i))"
  by (auto simp: deleteAnnotation_def openEntityModal_def Let_def intro: filter_cong)

theorem deleteAnnotation_cascade_witness:
  "annotations (deleteAnnotation (openEntityModal ModeEdit (Some (lit ''T1'')) pair_state))
     = [sample_entity (lit ''T2'') (lit ''Org'')]
   \<and> relations (deleteAnnotation (openEntityModal ModeEdit (Some (lit ''T1'')) pair_state)) = []"
proof -
  have a: "filter (\<lambda>a. ent_id a \<noteq> lit ''T1'') (annotations pair_state)
             = [sample_entity (lit ''T2'') (lit ''Org'')]"
    by (simp add: pair_state_def init_state_def sample_entity_def lit_def)
  have b: "filter (\<lambda>r. subject r \<noteq> Some (lit ''T1'') \<and> object r \<noteq> Some (lit ''T1''))
             (relations pair_state) = []"
    by (simp add: pair_state_def init_state_def sample_relation_def lit_def)
  from deleteAnnotation_cascade [of "lit ''T1''" pair_state] a b show ?thesis
    by (simp add: Let_def)
qed

section \<open>Relation validator\<close>

lemma js_trim_empty: "js_trim p = [] \<longleftrightarrow> (\<forall>c\<in>set p. is_space c)"
proof
  assume "js_trim p = []"
  then have "\<forall>c\<in>set (dropWhile is_space p). is_space c"
    by (simp add: js_trim_def)
  then have "dropWhile is_space p = []"
    by (metis hd_dropWhile hd_in_set)
  then show "\<forall>c\<in>set p. is_space c" by simp
next
  assume "\<forall>c\<in>set p. is_space c"
  then have d: "dropWhile is_space p = []" by simp
  show "js_trim p = []" unfolding js_trim_def d by simp
qed

lemma validate_loop_ok:
  "fst (validate_loop N s rs (ok, rows)) = (ok \<and> (\<forall>r\<in>set rs. relation_error N s r = None))"
  by (induction rs arbitrary: ok rows) (auto split: option.splits)

lemma incomplete_error:
  assumes "subject r = None \<or> object r = None \<or> predicate r = None
           \<or> (\<exists>p. predicate r = Some p \<and> (\<forall>c\<in>set p. is_space c))"
  shows "relation_error N s r = Some (lit ''Relation needs subject, type, and object'')"
  using assms js_trim_empty
  by (auto simp: relation_error_def split: option.splits)

lemma mark_row_twice: "mark_row m (mark_row m' row) = mark_row m row"
  by (simp add: mark_row_def option.map_comp comp_def)

lemma validate_loop_rows:
  "snd (validate_loop N s rs (ok, rows)) k =
     (case rows k of
        None \<Rightarrow> None
      | Some row \<Rightarrow> Some (case last_error N s rs k of None \<Rightarrow> row | Some m \<Rightarrow> mark_row m row))"
proof (induction rs arbitrary: ok rows)
  case Nil
  then show ?case by (simp split: option.splits)
next
  case (Cons r rs)
  show ?case
  proof (cases "relation_error N s r")
    case None
    then show ?thesis by (simp add: Cons.IH split: option.splits)
  next
    case (Some msg)
    then show ?thesis
      by (simp add: Cons.IH highlight_def mark_row_twice split: option.splits)
  qed
qed

lemma validate_rows_idem:
  "snd (validate_loop N s rs (ok', snd (validate_loop N s rs (ok, rows))))
     = snd (validate_loop N s rs (ok, rows))"
  by (rule ext) (simp add: validate_loop_rows mark_row_twice split: option.splits)

text \<open>
  C7. Running the validator again on the rows it left, with the model unchanged (the
  validator itself does not write to the model), gives the same verdict and leaves every
  row as the first run left it, with the same message.
\<close>

theorem validateRelations_idempotent:
  "validateRelations N s (snd (validateRelations N s rows)) = validateRelations N s rows"
  by (rule prod_eqI) (simp_all add: validateRelations_def validate_loop_ok validate_rows_idem)

theorem validateRelations_idempotent_witness:
  "validateRelations no_numbers half_state (snd (validateRelations no_numbers half_state rows0))
     = validateRelations no_numbers half_state rows0
   \<and> fst (validateRelations no_numbers half_state rows0) = False"
proof -
  have "fst (validateRelations no_numbers half_state rows0) = False"
    by (simp add: validateRelations_def half_state_def half_relation_def sample_relation_def
        relation_error_def)
  with validateRelations_idempotent [of no_numbers half_state rows0] show ?thesis by simp
qed

lemma last_error_none: "k \<notin> rel_id ` set rs \<Longrightarrow> last_error N s rs k = None"
  by (induction rs) (auto split: option.splits)

lemma last_error_distinct:
  "distinct (map rel_id rs) \<Longrightarrow> r \<in> set rs \<Longrightarrow> last_error N s rs (rel_id r) = relation_error N s r"
proof (induction rs)
  case Nil
  then show ?case by simp
next
  case (Cons a rs)
  show ?case
  proof (cases "r = a")
    case True
    with Cons.prems last_error_none [of "rel_id a" rs N s] show ?thesis by simp
  next
    case False
    with Cons have "last_error N s rs (rel_id r) = relation_error N s r" by simp
    moreover from False Cons.prems have "rel_id a \<noteq> rel_id r" by auto
    ultimately show ?thesis by (simp split: option.splits)
  qed
qed

text \<open>
  C6. A relation of the model whose subject, object or predicate is \<open>null\<close>, or whose
  predicate is empty or whitespace only, fails with the message
  \<open>Relation needs subject, type, and object\<close>, whatever its other fields, the schema and the
  entities are (no later check is reached), and the validator returns \<open>false\<close>. Where
  relation ids are distinct and the page has the relation's row, the row is marked invalid and
  its error element shows that message.
\<close>

theorem validateRelations_incomplete:
  assumes "r \<in> set (relations s)"
    and "subject r = None \<or> object r = None \<or> predicate r = None
         \<or> (\<exists>p. predicate r = Some p \<and> (\<forall>c\<in>set p. is_space c))"
  shows "relation_error N s r = Some (lit ''Relation needs subject, type, and object'')
       \<and> fst (validateRelations N s rows) = False
       \<and> (\<forall>row. distinct (map rel_id (relations s)) \<and> rows (rel_id r) = Some row \<longrightarrow>
            snd (validateRelations N s rows) (rel_id r)
              = Some (mark_row (lit ''Relation needs subject, type, and object'') row))"
proof -
  note e = incomplete_error [OF assms(2), of N s]
  have "fst (validateRelations N s rows) = False"
    using assms(1) e by (auto simp: validateRelations_def validate_loop_ok)
  moreover have "snd (validateRelations N s rows) (rel_id r)
              = Some (mark_row (lit ''Relation needs subject, type, and object'') row)"
    if "distinct (map rel_id (relations s))" "rows (rel_id r) = Some row" for row
    using that e last_error_distinct [OF that(1) assms(1), of N s]
    by (simp add: validateRelations_def validate_loop_rows)
  ultimately show ?thesis using e by blast
qed

theorem validateRelations_incomplete_witness:
  "half_relation \<in> set (relations half_state)
   \<and> object half_relation = None
   \<and> relation_error no_numbers half_state half_relation
       = Some (lit ''Relation needs subject, type, and object'')
   \<and> fst (validateRelations no_numbers half_state rows0) = False
   \<and> snd (validateRelations no_numbers half_state rows0) (lit ''R1'')
       = Some \<lparr>row_invalid = True,
               row_error = Some (lit ''Relation needs subject, type, and object'', True)\<rparr>"
proof -
  have a: "half_relation \<in> set (relations half_state)" by (simp add: half_state_def)
  have o: "object half_relation = None" by (simp add: half_relation_def sample_relation_def)
  then have b: "subject half_relation = None \<or> object half_relation = None
         \<or> predicate half_relation = None
         \<or> (\<exists>p. predicate half_relation = Some p \<and> (\<forall>c\<in>set p. is_space c))" by simp
  have d: "distinct (map rel_id (relations half_state))" by (simp add: half_state_def)
  have i: "rel_id half_relation = lit ''R1''" by (simp add: half_relation_def sample_relation_def)
  have r: "rows0 (lit ''R1'') = Some \<lparr>row_invalid = False, row_error = Some ([], False)\<rparr>"
    by (simp add: rows0_def)
  from validateRelations_incomplete [OF a b, of no_numbers rows0] a o d i r show ?thesis
    by (simp add: mark_row_def lit_def)
qed

section \<open>Attribute checks of the validator\<close>

lemma absent_iff: "absent v \<longleftrightarrow> v = None \<or> v = Some Null \<or> v = Some (Str [])"
  by (auto simp: absent_def split: option.splits attr_value.splits)

lemma attr_error_append:
  "attr_error N s r (pre @ rest) =
     (case attr_error N s r pre of Some m \<Rightarrow> Some m | None \<Rightarrow> attr_error N s r rest)"
  by (induction pre) (auto simp: Let_def split: attr_kind.splits option.splits)

lemma relation_error_attrs:
  assumes "subject r = Some sid" "sid \<noteq> []" "object r = Some oid" "oid \<noteq> []"
    and "predicate r = Some p" "js_trim p \<noteq> []"
    and "map_of (relationsMeta s) p = Some spec"
    and "entityById s sid = Some left" "entityById s oid = Some right"
    and "includes_opt (rs_subject spec) (ent_class left)
           \<and> includes_opt (rs_object spec) (ent_class right)
         \<or> includes_opt (rs_subject spec) (ent_class right)
           \<and> includes_opt (rs_object spec) (ent_class left)"
  shows "relation_error N s r = attr_error N s r (rs_attributes spec)"
proof -
  from assms(6) have "p \<noteq> []" by (auto simp: js_trim_def)
  with assms show ?thesis by (auto simp: relation_error_def Let_def)
qed

lemma js_get_own: "name \<notin> set prototype_names \<Longrightarrow> js_get a name = map_of a name"
  by (simp add: js_get_def split: option.splits)

lemma attr_error_head:
  "attr_error N s r ((name, aspec) # post) =
     (let v = js_get (rel_attrs r) name;
          missing = (v = None \<or> v = Some Null \<or> v = Some (Str []));
          next = attr_error N s r post
      in if missing then (if nullable aspec = Some False
                          then Some (lit ''Missing required attribute: '' @ name) else next)
         else
           (case kind aspec of
              KEnum vals \<Rightarrow>
                if \<exists>x. v = Some (Str x) \<and> x \<in> set vals then next
                else Some (quoted name @ lit '' has invalid value'')
            | KNumber \<Rightarrow>
                if (\<exists>x. v = Some (Str x) \<and> isNaN N (Number N x))
                   \<or> (\<exists>n. v = Some (Num n) \<and> isNaN N n) \<or> v = Some Inherited
                then Some (quoted name @ lit '' must be a number'')
                else next
            | KEntity cls \<Rightarrow>
                if \<exists>x ent. v = Some (Str x) \<and> entityById s x = Some ent \<and> ent_class ent \<in> set cls
                then next
                else Some (quoted name @ lit '' must refer to a '' @ js_join (lit '' or '') cls)
            | KOther \<Rightarrow> next))"
proof (cases "js_get (rel_attrs r) name")
  case None
  then show ?thesis by (simp add: absent_def Let_def)
next
  case (Some w)
  show ?thesis
  proof (cases w)
    case Null
    with Some show ?thesis by (simp add: absent_def Let_def)
  next
    case (Str x)
    with Some show ?thesis
      by (cases "kind aspec")
        (auto simp: absent_def Let_def enum_includes_def nan_value_def value_entity_def
          split: option.splits)
  next
    case (Num n)
    with Some show ?thesis
      by (cases "kind aspec")
        (auto simp: absent_def Let_def enum_includes_def nan_value_def value_entity_def)
  next
    case Inherited
    with Some show ?thesis
      by (cases "kind aspec")
        (auto simp: absent_def Let_def enum_includes_def nan_value_def value_entity_def)
  qed
qed


text \<open>
  C8. For every attribute of the predicate's specification, a stored value that is absent
  with \<open>nullable === false\<close> is to be reported as \<open>Missing required attribute\<close>. The
  validator reads the value with \<open>(r.attrs || {})[name]\<close> on a plain object, which also
  finds the members of \<open>Object.prototype\<close>. For a required attribute named \<open>constructor\<close>
  (the field-name rule \<open>^[a-z_][a-z0-9_]*$\<close> admits it) and a relation that stores no
  attribute, the value read is not \<open>undefined\<close>: with a text kind the relation is accepted
  and the verdict is \<open>true\<close>, with an enum kind the message is
  \<open>'constructor' has invalid value\<close>, with a number kind it is
  \<open>'constructor' must be a number\<close>; the missing attribute is never reported.
\<close>

theorem validateRelations_inherited_attribute:
  "rel_attrs role_relation = []
   \<and> relation_error no_numbers (ctor_state KOther) role_relation = None
   \<and> fst (validateRelations no_numbers (ctor_state KOther) rows0) = True
   \<and> relation_error no_numbers (ctor_state (KEnum [lit ''ceo''])) role_relation
       = Some (quoted (lit ''constructor'') @ lit '' has invalid value'')
   \<and> relation_error no_numbers (ctor_state KNumber) role_relation
       = Some (quoted (lit ''constructor'') @ lit '' must be a number'')
   \<and> fst (validateRelations no_numbers (ctor_state KNumber) rows0) = False"
  by code_simp

text \<open>
  Let a relation of the model have passed the checks before the attribute loop (complete,
  predicate known, both endpoints found, classes allowed) and let the loop reach the
  attribute \<open>name\<close> of the predicate's specification (the attributes before it raise no
  error). The value read is the stored one unless \<open>name\<close> is a member of
  \<open>Object.prototype\<close>. If the value read is absent, \<open>null\<close> or empty: with
  \<open>nullable === false\<close> the relation fails with \<open>Missing required attribute: name\<close>,
  otherwise the loop goes on. If a value is present: an \<open>enum\<close> value outside the allowed set
  fails with \<open>'name' has invalid value\<close>; a \<open>number\<close> value fails with
  \<open>'name' must be a number\<close> exactly when it is a string or a number whose conversion
  \<open>Number.isNaN\<close> rejects, or an inherited member; an \<open>entity\<close> value that is not the id of
  an entity whose class is allowed fails with \<open>'name' must refer to a ...\<close>; any other
  value lets the loop go on. Every failure makes the validator return \<open>false\<close>.
\<close>

theorem validateRelations_attributes:
  assumes "r \<in> set (relations s)"
    and "subject r = Some sid" "sid \<noteq> []" "object r = Some oid" "oid \<noteq> []"
    and "predicate r = Some p" "js_trim p \<noteq> []"
    and "map_of (relationsMeta s) p = Some spec"
    and "entityById s sid = Some left" "entityById s oid = Some right"
    and "includes_opt (rs_subject spec) (ent_class left)
           \<and> includes_opt (rs_object spec) (ent_class right)
         \<or> includes_opt (rs_subject spec) (ent_class right)
           \<and> includes_opt (rs_object spec) (ent_class left)"
    and "rs_attributes spec = pre @ (name, aspec) # post"
    and "attr_error N s r pre = None"
  shows
    "(let v = js_get (rel_attrs r) name;
          missing = (v = None \<or> v = Some Null \<or> v = Some (Str []));
          fails = (\<lambda>msg. relation_error N s r = Some msg
                          \<and> fst (validateRelations N s rows) = False);
          goes_on = (relation_error N s r = attr_error N s r post)
      in (name \<notin> set prototype_names \<longrightarrow> v = map_of (rel_attrs r) name)
       \<and> (missing \<and> nullable aspec = Some False \<longrightarrow>
            fails (lit ''Missing required attribute: '' @ name))
       \<and> (missing \<and> nullable aspec \<noteq> Some False \<longrightarrow> goes_on)
       \<and> (\<not> missing \<longrightarrow>
            (case kind aspec of
               KEnum vals \<Rightarrow>
                 if \<exists>x. v = Some (Str x) \<and> x \<in> set vals then goes_on
                 else fails (quoted name @ lit '' has invalid value'')
             | KNumber \<Rightarrow>
                 if (\<exists>x. v = Some (Str x) \<and> isNaN N (Number N x))
                    \<or> (\<exists>n. v = Some (Num n) \<and> isNaN N n) \<or> v = Some Inherited
                 then fails (quoted name @ lit '' must be a number'')
                 else goes_on
             | KEntity cls \<Rightarrow>
                 if \<exists>x ent. v = Some (Str x) \<and> entityById s x = Some ent \<and> ent_class ent \<in> set cls
                 then goes_on
                 else fails (quoted name @ lit '' must refer to a '' @ js_join (lit '' or '') cls)
             | KOther \<Rightarrow> goes_on)))"
proof -
  have e: "relation_error N s r = attr_error N s r ((name, aspec) # post)"
    using relation_error_attrs [OF assms(2-11), of N] assms(12,13)
    by (simp add: attr_error_append)
  have f: "relation_error N s r = Some msg \<Longrightarrow> fst (validateRelations N s rows) = False" for msg
    using assms(1) by (auto simp: validateRelations_def validate_loop_ok)
  have g: "name \<notin> set prototype_names \<Longrightarrow> js_get (rel_attrs r) name = map_of (rel_attrs r) name"
    by (rule js_get_own)
  show ?thesis
  proof (cases "js_get (rel_attrs r) name")
    case None
    then show ?thesis
      using e f g
      by (cases "kind aspec")
         (auto simp: absent_def Let_def enum_includes_def nan_value_def value_entity_def)
  next
    case (Some y)
    then show ?thesis
      using e f g
      by (cases y; cases "kind aspec")
         (auto simp: absent_def Let_def enum_includes_def nan_value_def value_entity_def
               split: option.splits)
  qed
qed


lemma role_hyps:
  "role_relation \<in> set (relations role_state)"
  "subject role_relation = Some (lit ''T1'')" "lit ''T1'' \<noteq> []"
  "object role_relation = Some (lit ''T2'')" "lit ''T2'' \<noteq> []"
  "predicate role_relation = Some (lit ''WorksFor'')" "js_trim (lit ''WorksFor'') \<noteq> []"
  "map_of (relationsMeta role_state) (lit ''WorksFor'') = Some role_spec"
  "entityById role_state (lit ''T1'') = Some (sample_entity (lit ''T1'') (lit ''Person''))"
  "entityById role_state (lit ''T2'') = Some (sample_entity (lit ''T2'') (lit ''Org''))"
  "includes_opt (rs_subject role_spec) (ent_class (sample_entity (lit ''T1'') (lit ''Person'')))
     \<and> includes_opt (rs_object role_spec) (ent_class (sample_entity (lit ''T2'') (lit ''Org'')))
   \<or> includes_opt (rs_subject role_spec) (ent_class (sample_entity (lit ''T2'') (lit ''Org'')))
     \<and> includes_opt (rs_object role_spec) (ent_class (sample_entity (lit ''T1'') (lit ''Person'')))"
  "rs_attributes role_spec =
     [] @ (lit ''role'', \<lparr>nullable = Some False, kind = KEnum [lit ''ceo'']\<rparr>) # []"
  "attr_error no_numbers role_state role_relation [] = None"
  by (simp_all add: role_state_def role_relation_def role_spec_def pair_state_def init_state_def
      sample_relation_def sample_entity_def entityById_def includes_opt_def lit_def js_trim_def
      is_space_def)

theorem validateRelations_attributes_witness:
  "js_get (rel_attrs role_relation) (lit ''role'') = None
   \<and> relation_error no_numbers role_state role_relation
       = Some (lit ''Missing required attribute: role'')
   \<and> fst (validateRelations no_numbers role_state rows0) = False"
proof -
  have m: "js_get (rel_attrs role_relation) (lit ''role'') = None"
    by code_simp
  from validateRelations_attributes [OF role_hyps, of rows0] m show ?thesis
    by (simp add: Let_def lit_def)
qed

section \<open>Orientation of a relation\<close>

lemma find_update_first:
  "find P xs = Some x \<Longrightarrow> (\<And>y. P (f y) = P y) \<Longrightarrow> find P (update_first P f xs) = Some (f x)"
  by (induction xs) (auto split: if_splits)

lemma rel_id_orient: "rel_id (orient s name rel) = rel_id rel"
  by (simp add: orient_def split: option.splits)

lemma rel_id_confirm_update: "rel_id (confirm_update N form s name rel) = rel_id rel"
  by (simp add: confirm_update_def Let_def rel_id_orient)

lemma predicate_orient: "predicate (orient s name rel) = predicate rel"
  by (simp add: orient_def split: option.splits)

lemma ends_confirm_update:
  "subject (confirm_update N form s name rel) = subject (orient s name (rel\<lparr>predicate := Some name\<rparr>))"
  "object (confirm_update N form s name rel) = object (orient s name (rel\<lparr>predicate := Some name\<rparr>))"
  "predicate (confirm_update N form s name rel) = Some name"
  by (simp_all add: confirm_update_def Let_def predicate_orient)

text \<open>
  C5. Let \<open>confirmRelation\<close> set the predicate \<open>name\<close> of the relation being edited, where
  the schema knows \<open>name\<close> and its class lists hold no empty class name (class names match
  \<open>^[A-Z][A-Za-z0-9_]*$\<close>). If both endpoints are entities whose classes the schema permits
  in the reverse orientation only, subject and object are swapped; if it permits them
  forward (alone or in both orientations) they stay as they are; if only the subject is an
  entity and its class is permitted as object only, it becomes the object and the subject
  becomes \<open>null\<close>; if only the object is an entity and its class is permitted as subject
  only, it becomes the subject and the object becomes \<open>null\<close>.
\<close>

theorem confirmRelation_orientation:
  assumes "find (\<lambda>r. Some (rel_id r) = relEditingId s) (relations s) = Some rel"
    and "sel_rel form = Some name"
    and "map_of (relationsMeta s) name = Some spec"
    and "\<not> includes_opt (rs_subject spec) []"
    and "\<not> includes_opt (rs_object spec) []"
  shows "\<exists>s' rel'.
      confirmRelation N form s = Inr s'
    \<and> find (\<lambda>r. Some (rel_id r) = relEditingId s) (relations s') = Some rel'
    \<and> predicate rel' = Some name
    \<and> (\<forall>l r. endpoint s (subject rel) = Some l \<and> endpoint s (object rel) = Some r \<longrightarrow>
          (let fwd = includes_opt (rs_subject spec) (ent_class l)
                     \<and> includes_opt (rs_object spec) (ent_class r);
               rev = includes_opt (rs_subject spec) (ent_class r)
                     \<and> includes_opt (rs_object spec) (ent_class l)
           in (rev \<and> \<not> fwd \<longrightarrow> subject rel' = object rel \<and> object rel' = subject rel)
            \<and> (fwd \<longrightarrow> subject rel' = subject rel \<and> object rel' = object rel)))
    \<and> (\<forall>l. endpoint s (subject rel) = Some l \<and> endpoint s (object rel) = None
            \<and> \<not> includes_opt (rs_subject spec) (ent_class l)
            \<and> includes_opt (rs_object spec) (ent_class l) \<longrightarrow>
          subject rel' = None \<and> object rel' = subject rel)
    \<and> (\<forall>r. endpoint s (subject rel) = None \<and> endpoint s (object rel) = Some r
            \<and> includes_opt (rs_subject spec) (ent_class r)
            \<and> \<not> includes_opt (rs_object spec) (ent_class r) \<longrightarrow>
          subject rel' = object rel \<and> object rel' = None)"
proof -
  let ?P = "\<lambda>r. Some (rel_id r) = relEditingId s"
  let ?rel' = "confirm_update N form s name rel"
  let ?s' = "s\<lparr>relations := update_first ?P (confirm_update N form s name) (relations s)\<rparr>"
  have c: "confirmRelation N form s = Inr ?s'"
    using assms(1,2) by (simp add: confirmRelation_def)
  have f: "find ?P (relations ?s') = Some ?rel'"
    using find_update_first [OF assms(1), of "confirm_update N form s name"]
    by (simp add: rel_id_confirm_update)
  have both: "(let fwd = includes_opt (rs_subject spec) (ent_class l)
                     \<and> includes_opt (rs_object spec) (ent_class r);
               rev = includes_opt (rs_subject spec) (ent_class r)
                     \<and> includes_opt (rs_object spec) (ent_class l)
           in (rev \<and> \<not> fwd \<longrightarrow> subject ?rel' = object rel \<and> object ?rel' = subject rel)
            \<and> (fwd \<longrightarrow> subject ?rel' = subject rel \<and> object ?rel' = object rel))"
    if e: "endpoint s (subject rel) = Some l" "endpoint s (object rel) = Some r" for l r
  proof (cases "ent_class l = [] \<or> ent_class r = []")
    case True
    with assms(4,5) show ?thesis by (auto simp: Let_def)
  next
    case False
    with e assms(3) show ?thesis
      by (auto simp: ends_confirm_update orient_def relationOrientationForPair_def Let_def)
  qed
  have left: "subject ?rel' = None \<and> object ?rel' = subject rel"
    if "endpoint s (subject rel) = Some l" "endpoint s (object rel) = None"
       "\<not> includes_opt (rs_subject spec) (ent_class l)"
       "includes_opt (rs_object spec) (ent_class l)" for l
    using that assms(3)
    by (simp add: ends_confirm_update orient_def firstEntityRoleFor_def Let_def)
  have right: "subject ?rel' = object rel \<and> object ?rel' = None"
    if "endpoint s (subject rel) = None" "endpoint s (object rel) = Some r"
       "includes_opt (rs_subject spec) (ent_class r)"
       "\<not> includes_opt (rs_object spec) (ent_class r)" for r
    using that assms(3)
    by (simp add: ends_confirm_update orient_def firstEntityRoleFor_def Let_def)
  from c f both left right ends_confirm_update(3) [of N form s name rel]
  show ?thesis by blast
qed

lemma pair_find:
  "find (\<lambda>r. Some (rel_id r) = relEditingId pair_state) (relations pair_state)
     = Some (sample_relation (lit ''R1'') None (Some (lit ''T2'')) (Some (lit ''T1'')))"
  by (simp add: pair_state_def init_state_def sample_relation_def)

lemma pair_endpoints:
  "endpoint pair_state (Some (lit ''T2'')) = Some (sample_entity (lit ''T2'') (lit ''Org''))"
  "endpoint pair_state (Some (lit ''T1'')) = Some (sample_entity (lit ''T1'') (lit ''Person''))"
  by (simp_all add: endpoint_def entityById_def pair_state_def init_state_def sample_entity_def
      lit_def)

theorem confirmRelation_orientation_witness:
  "\<not> includes_opt (rs_subject works_for) [] \<and> \<not> includes_opt (rs_object works_for) []
   \<and> (\<exists>s' rel'. confirmRelation no_numbers rel_form0 pair_state = Inr s'
     \<and> find (\<lambda>r. Some (rel_id r) = relEditingId pair_state) (relations s') = Some rel'
     \<and> subject rel' = Some (lit ''T1'') \<and> object rel' = Some (lit ''T2''))"
proof -
  have b: "sel_rel rel_form0 = Some (lit ''WorksFor'')" by (simp add: rel_form0_def)
  have c: "map_of (relationsMeta pair_state) (lit ''WorksFor'') = Some works_for"
    by (simp add: pair_state_def init_state_def)
  have d: "\<not> includes_opt (rs_subject works_for) []"
    by (simp add: works_for_def includes_opt_def lit_def)
  have e: "\<not> includes_opt (rs_object works_for) []"
    by (simp add: works_for_def includes_opt_def lit_def)
  from confirmRelation_orientation [OF pair_find b c d e, of no_numbers] obtain s' rel' where
    r: "confirmRelation no_numbers rel_form0 pair_state = Inr s'"
       "find (\<lambda>r. Some (rel_id r) = relEditingId pair_state) (relations s') = Some rel'"
    and o: "\<And>l r. endpoint pair_state (Some (lit ''T2'')) = Some l \<Longrightarrow>
              endpoint pair_state (Some (lit ''T1'')) = Some r \<Longrightarrow>
          (let fwd = includes_opt (rs_subject works_for) (ent_class l)
                     \<and> includes_opt (rs_object works_for) (ent_class r);
               rev = includes_opt (rs_subject works_for) (ent_class r)
                     \<and> includes_opt (rs_object works_for) (ent_class l)
           in (rev \<and> \<not> fwd \<longrightarrow> subject rel' = Some (lit ''T1'') \<and> object rel' = Some (lit ''T2''))
            \<and> (fwd \<longrightarrow> subject rel' = Some (lit ''T2'') \<and> object rel' = Some (lit ''T1'')))"
    by (simp add: sample_relation_def) blast
  have "subject rel' = Some (lit ''T1'') \<and> object rel' = Some (lit ''T2'')"
    using o [OF pair_endpoints]
    by (simp add: sample_entity_def works_for_def includes_opt_def lit_def Let_def)
  with r d e show ?thesis by blast
qed

section \<open>Operations on unknown ids\<close>

text \<open>
  C9, as stated, fails for the deletion of an entity: \<open>deleteAnnotation\<close> filters the
  relations by the id whether or not an entity has it. A relation made by dropping the text
  \<open>X\<close> on the relations area has the subject \<open>X\<close>; no entity has that id, and deleting by
  the id \<open>X\<close> removes the relation.
\<close>

theorem deleteAnnotation_unknown_id:
  "lit ''X'' \<notin> set (map ent_id (annotations orphan_state))
   \<and> map subject (relations orphan_state) = [Some (lit ''X'')]
   \<and> relations (deleteAnnotation (openEntityModal ModeEdit (Some (lit ''X'')) orphan_state)) = []"
  by (simp add: orphan_state_def dropOnRelations_def init_state_def deleteAnnotation_def
      openEntityModal_def lit_def)

lemma find_none_all: "find P xs = None \<longleftrightarrow> (\<forall>x\<in>set xs. \<not> P x)"
  by (induction xs) auto

text \<open>
  C9, amended. With an id \<open>i\<close> that no entity has: confirming an edit returns normally
  and changes nothing; deleting returns normally, leaves the entities as they are and removes
  exactly the relations whose subject or object is \<open>i\<close> (none, when no relation refers to
  \<open>i\<close>). With an id that no relation has: \<open>confirmRelation\<close> returns normally before it reads
  the page and changes nothing, and deleting the relation changes nothing.
\<close>

theorem unknown_id_noop:
  "(i \<notin> set (map ent_id (annotations s)) \<longrightarrow>
      confirmSaveAnnotation N form (openEntityModal ModeEdit (Some i) s)
        = Inr (openEntityModal ModeEdit (Some i) s)
    \<and> annotations (openEntityModal ModeEdit (Some i) s) = annotations s
    \<and> relations (openEntityModal ModeEdit (Some i) s) = relations s
    \<and> annotations (deleteAnnotation (openEntityModal ModeEdit (Some i) s)) = annotations s
    \<and> relations (deleteAnnotation (openEntityModal ModeEdit (Some i) s))
        = filter (\<lambda>r. subject r \<noteq> Some i \<and> object r \<noteq> Some i) (relations s)
    \<and> ((\<forall>r\<in>set (relations s). subject r \<noteq> Some i \<and> object r \<noteq> Some i) \<longrightarrow>
          relations (deleteAnnotation (openEntityModal ModeEdit (Some i) s)) = relations s))
   \<and> (i \<notin> set (map rel_id (relations s)) \<longrightarrow>
        confirmRelation N rform (s\<lparr>relEditingId := Some i\<rparr>) = Inr (s\<lparr>relEditingId := Some i\<rparr>)
      \<and> deleteRelation i s = s)"
proof -
  have a: "find (\<lambda>a. Some (ent_id a) = Some i) (annotations s) = None"
    if "i \<notin> set (map ent_id (annotations s))"
    using that by (auto simp: find_none_all)
  have b: "find (\<lambda>r. Some (rel_id r) = Some i) (relations s) = None"
    if "i \<notin> set (map rel_id (relations s))"
    using that by (auto simp: find_none_all)
  have c: "filter (\<lambda>a. ent_id a \<noteq> i) (annotations s) = annotations s"
    if "i \<notin> set (map ent_id (annotations s))"
    using that by (auto intro: filter_True)
  have d: "filter (\<lambda>r. rel_id r \<noteq> i) (relations s) = relations s"
    if "i \<notin> set (map rel_id (relations s))"
    using that by (auto intro: filter_True)
  show ?thesis
    using a b c d
    by (auto simp: confirmSaveAnnotation_def confirmRelation_def deleteAnnotation_def
        deleteRelation_def openEntityModal_def Let_def split: option.splits)
qed

theorem unknown_id_noop_witness:
  "lit ''T9'' \<notin> set (map ent_id (annotations pair_state))
   \<and> lit ''T9'' \<notin> set (map rel_id (relations pair_state))
   \<and> confirmSaveAnnotation no_numbers form0 (openEntityModal ModeEdit (Some (lit ''T9'')) pair_state)
        = Inr (openEntityModal ModeEdit (Some (lit ''T9'')) pair_state)
   \<and> annotations (deleteAnnotation (openEntityModal ModeEdit (Some (lit ''T9'')) pair_state))
        = annotations pair_state
   \<and> relations (deleteAnnotation (openEntityModal ModeEdit (Some (lit ''T9'')) pair_state))
        = relations pair_state
   \<and> confirmRelation no_numbers rel_form0 (pair_state\<lparr>relEditingId := Some (lit ''T9'')\<rparr>)
        = Inr (pair_state\<lparr>relEditingId := Some (lit ''T9'')\<rparr>)
   \<and> deleteRelation (lit ''T9'') pair_state = pair_state"
proof -
  have a: "lit ''T9'' \<notin> set (map ent_id (annotations pair_state))"
    by (simp add: pair_state_def init_state_def sample_entity_def lit_def)
  have b: "lit ''T9'' \<notin> set (map rel_id (relations pair_state))"
    by (simp add: pair_state_def init_state_def sample_relation_def lit_def)
  have c: "\<forall>r\<in>set (relations pair_state).
             subject r \<noteq> Some (lit ''T9'') \<and> object r \<noteq> Some (lit ''T9'')"
    by (simp add: pair_state_def init_state_def sample_relation_def lit_def)
  from unknown_id_noop [of "lit ''T9''" pair_state no_numbers form0 rel_form0] a b c
  show ?thesis by simp
qed

section \<open>Hydration of saved annotations\<close>

lemma ids_have_iff: "ids_have s i \<longleftrightarrow> (\<exists>a\<in>set (annotations s). i = Some (ent_id a))"
  by (auto simp: ids_have_def split: option.splits)

lemma hydrate_entities_ids:
  "map ent_id (hydrate_entities s ents)
     = map se_id (filter (\<lambda>e. spanToTokenRange s (se_span e) \<noteq> None) ents)"
  by (induction ents) (auto split: option.splits)

lemma spanToTokenRange_tokens:
  "tokens s = tokens s' \<Longrightarrow> spanToTokenRange s sp = spanToTokenRange s' sp"
  by (simp add: spanToTokenRange_def)

text \<open>
  C10. The loaded state is to satisfy referential integrity always. \<open>loadTextResponse\<close>
  empties the entities before it asks for the saved annotations, but empties the relations
  only inside the \<open>try\<close>, after the request has returned. When the request fails (the
  promise of \<open>API.getAnnotation\<close> rejects) while the previous document had relations, the
  loaded state has no entity and still holds the relations of the previous document, whose
  subject and object are ids of no entity.
\<close>

theorem loadTextResponse_stale_relations:
  "annotations (loadTextResponse data0 FetchFailed pair_state) = []
   \<and> map rel_id (relations (loadTextResponse data0 FetchFailed pair_state)) = [lit ''R1'']
   \<and> map subject (relations (loadTextResponse data0 FetchFailed pair_state))
       = [Some (lit ''T2'')]
   \<and> map object (relations (loadTextResponse data0 FetchFailed pair_state))
       = [Some (lit ''T1'')]
   \<and> ids_have (loadTextResponse data0 FetchFailed pair_state) (Some (lit ''T2'')) = False
   \<and> ids_have (loadTextResponse data0 FetchFailed pair_state) (Some (lit ''T1'')) = False"
  by code_simp

text \<open>
  When the request for the saved annotations returns (with a saved object or with
  \<open>null\<close>), the loaded state holds, of the saved entities, those whose span maps to a token
  range of the new text, and, of the saved relations, exactly those whose subject and object
  are both ids of these entities: every relation of the loaded state has its subject and its
  object among the entities of the loaded state.
\<close>

theorem loadTextResponse_integrity:
  assumes "fetched \<noteq> FetchFailed"
  shows
    "(let s' = loadTextResponse data fetched s in
        (\<forall>r\<in>set (relations s').
           (\<exists>a\<in>set (annotations s'). subject r = Some (ent_id a))
         \<and> (\<exists>b\<in>set (annotations s'). object r = Some (ent_id b)))
      \<and> (\<forall>d ents. fetched = Saved d \<and> sd_entities d = Some ents \<longrightarrow>
            map ent_id (annotations s')
              = map se_id (filter (\<lambda>e. spanToTokenRange s' (se_span e) \<noteq> None) ents))
      \<and> (\<forall>d rels. fetched = Saved d \<and> sd_relations d = Some rels \<longrightarrow>
            relations s'
              = map hydrate_relation
                  (filter (\<lambda>r. (\<exists>a\<in>set (annotations s'). sr_subject r = Some (ent_id a))
                             \<and> (\<exists>b\<in>set (annotations s'). sr_object r = Some (ent_id b))) rels)))"
proof (cases fetched)
  case FetchFailed
  with assms show ?thesis by simp
next
  case NotFound
  then show ?thesis by (simp add: loadTextResponse_def Let_def)
next
  case (Saved d)
  define s1 where "s1 = s\<lparr>current := Some (tr_id data, tr_text data), cursor := tr_cursor data,
                 total := tr_total data, annotations := [], startIdx := None, endIdx := None,
                 saved_exists := False, saved_wasEmpty := False,
                 tokens := tokenizeWithOffsets (tr_text data)\<rparr>"
  define s3 where "s3 = (case sd_entities d of
                                 None \<Rightarrow> s1
                               | Some ents \<Rightarrow>
                                   s1\<lparr>saved_exists := True, saved_wasEmpty := (ents = []),
                                      annotations := hydrate_entities s1 ents\<rparr>)"
  define rs where "rs = (case sd_relations d of None \<Rightarrow> [] | Some rels \<Rightarrow> hydrate_relations s3 rels)"
  have s': "loadTextResponse data fetched s = s3\<lparr>relations := rs, dirty := False\<rparr>"
    unfolding rs_def s3_def s1_def loadTextResponse_def Let_def Saved by simp
  have t: "tokens s3 = tokens s1" by (simp add: s3_def split: option.splits)
  have ri: "\<forall>r\<in>set rs.
           (\<exists>a\<in>set (annotations s3). subject r = Some (ent_id a))
         \<and> (\<exists>b\<in>set (annotations s3). object r = Some (ent_id b))"
    by (auto simp: rs_def hydrate_relations_def hydrate_relation_def Let_def ids_have_iff
        split: option.splits)
  have en: "map ent_id (annotations s3)
              = map se_id (filter (\<lambda>e. spanToTokenRange s3 (se_span e) \<noteq> None) ents)"
    if "sd_entities d = Some ents" for ents
    using that spanToTokenRange_tokens [OF t]
    by (simp add: s3_def hydrate_entities_ids)
  have re: "rs = map hydrate_relation
                  (filter (\<lambda>r. (\<exists>a\<in>set (annotations s3). sr_subject r = Some (ent_id a))
                             \<and> (\<exists>b\<in>set (annotations s3). sr_object r = Some (ent_id b))) rels)"
    if "sd_relations d = Some rels" for rels
    using that by (simp add: rs_def hydrate_relations_def ids_have_iff)
  have sp: "spanToTokenRange (s3\<lparr>relations := rs, dirty := False\<rparr>) = spanToTokenRange s3"
    by (rule ext) (simp add: spanToTokenRange_def)
  show ?thesis
    unfolding Let_def s' using ri en re Saved by (simp add: sp)
qed

lemma load0:
  "map ent_id (annotations (loadTextResponse data0 (Saved saved0) pair_state)) = [lit ''T1'']
   \<and> map rel_id (relations (loadTextResponse data0 (Saved saved0) pair_state)) = [lit ''R2'']
   \<and> map subject (relations (loadTextResponse data0 (Saved saved0) pair_state)) = [Some (lit ''T1'')]
   \<and> map object (relations (loadTextResponse data0 (Saved saved0) pair_state)) = [Some (lit ''T1'')]"
  by code_simp

theorem loadTextResponse_integrity_witness:
  "Saved saved0 \<noteq> FetchFailed
   \<and> map ent_id (annotations (loadTextResponse data0 (Saved saved0) pair_state)) = [lit ''T1'']
   \<and> map rel_id (relations (loadTextResponse data0 (Saved saved0) pair_state)) = [lit ''R2'']
   \<and> map subject (relations (loadTextResponse data0 (Saved saved0) pair_state)) = [Some (lit ''T1'')]
   \<and> map object (relations (loadTextResponse data0 (Saved saved0) pair_state)) = [Some (lit ''T1'')]"
proof -
  have a: "Saved saved0 \<noteq> (FetchFailed :: unit fetch_result)" by simp
  note t = loadTextResponse_integrity [OF a, of data0 pair_state]
  from t a load0 show ?thesis by blast
qed

text \<open>
  From every state, when the request for the saved annotations fails, the entities are
  empty and the \<open>catch\<close> branch leaves the relations of the previous document in place.
\<close>

theorem loadTextResponse_failed_fetch:
  "annotations (loadTextResponse data FetchFailed s) = []
   \<and> relations (loadTextResponse data FetchFailed s) = relations s"
  by (simp add: loadTextResponse_def Let_def)

end
